theory Spec2Isabelle
  imports Main "HOL-Library.AList" "HOL-Library.Sublist"
begin

section \<open>Text\<close>

text \<open>
  A Python \<^verbatim>\<open>str\<close> is a sequence of Unicode code points, so a \<open>pystr\<close> is a list of
  natural numbers. ASCII literals of the source are written with \<open>asc\<close>; the Chinese
  literals are written out as code points.
\<close>

type_synonym pystr = "nat list"

definition asc :: "string \<Rightarrow> pystr" where
  "asc s = map of_char s"

section \<open>Repository README collector (database/test_getall_repo.py)\<close>

subsection \<open>Repository records\<close>

text \<open>
  One element of the JSON array returned by the organisation-repositories endpoint: a
  dictionary, of which the collector reads seven keys. \<open>None\<close> is an absent key. The
  collector reads \<^verbatim>\<open>repo['name']\<close> directly, which raises \<^verbatim>\<open>KeyError\<close> for an
  absent key, and every other field through \<^verbatim>\<open>repo.get(key, default)\<close>. A field that
  is present holds the text that the f-string prints for its value.
\<close>

record repo =
  name :: "pystr option"
  description :: "pystr option"
  html_url :: "pystr option"
  created_at :: "pystr option"
  updated_at :: "pystr option"
  language :: "pystr option"
  stargazers_count :: "pystr option"

subsection \<open>get_organization_repos\<close>

text \<open>
  The answer to one page request: \<open>RequestFailure\<close> when \<^verbatim>\<open>requests.get\<close> or
  \<^verbatim>\<open>raise_for_status\<close> raises a \<^verbatim>\<open>RequestException\<close>, otherwise the JSON array
  of the page.
\<close>

datatype page_response = RequestFailure | Page "repo list"

definition per_page :: nat where
  "per_page = 100"

text \<open>
  The \<^verbatim>\<open>while True\<close> loop. The endpoint is a function from the page number to its
  answer; the loop may run forever (an endpoint that never returns an empty page), so it
  is a partial function and \<open>None\<close> is "does not return". The result is the list
  \<^verbatim>\<open>repos\<close> together with the page numbers requested, in order.
\<close>

partial_function (option) get_pages ::
  "(nat \<Rightarrow> page_response) \<Rightarrow> nat \<Rightarrow> repo list \<Rightarrow> nat list \<Rightarrow> (repo list \<times> nat list) option"
where
  "get_pages api page repos requested =
     (case api page of
        RequestFailure \<Rightarrow> Some (repos, requested @ [page])
      | Page page_repos \<Rightarrow>
          if page_repos = [] then Some (repos, requested @ [page])
          else get_pages api (page + 1) (repos @ page_repos) (requested @ [page]))"

definition get_organization_repos ::
  "(nat \<Rightarrow> page_response) \<Rightarrow> (repo list \<times> nat list) option" where
  "get_organization_repos api = get_pages api 1 [] []"

subsection \<open>Exceptions\<close>

text \<open>
  The exceptions that the modelled code raises or catches. \<open>RequestError\<close> stands for
  a \<^verbatim>\<open>requests\<close> exception, \<open>JsonError\<close> for a body that is not the expected JSON
  object, \<open>DecodeError\<close> for a failed base64 or UTF-8 decoding, \<open>OSError\<close> for a
  failed directory creation or file write, \<open>SplitterError\<close> for sizes that the text
  splitter's constructor rejects, \<open>EmbeddingError\<close> for a failure inside the vector
  store.
\<close>

datatype exn =
    RequestError
  | JsonError
  | KeyError pystr
  | DecodeError
  | OSError
  | ValueError pystr
  | SplitterError
  | EmbeddingError

subsection \<open>get_repo_readme\<close>

text \<open>
  The answer of the contents endpoint for one candidate file: the request raises
  (\<open>ConnectionFailed\<close>), or there is a response with a status code and a body. The
  body is \<open>BadJson\<close> when \<^verbatim>\<open>response.json()\<close> raises or gives something that is not
  a JSON object; otherwise only its \<^verbatim>\<open>encoding\<close> and \<^verbatim>\<open>content\<close> entries are read
  (\<open>None\<close>: no such key).
\<close>

datatype json_body = BadJson | JsonObject (json_encoding: "pystr option") (json_content: "pystr option")

datatype contents_response = ConnectionFailed | Response (status_code: nat) (body: json_body)

definition base_url :: pystr where
  "base_url = asc ''https://api.github.com''"

definition org_name :: pystr where
  "org_name = asc ''datawhalechina''"

definition readme_dir :: pystr where
  "readme_dir = asc ''database/readme_db''"

definition readme_files :: "pystr list" where
  "readme_files =
     [asc ''README.md'', asc ''readme.md'', asc ''README.txt'', asc ''readme.txt'', asc ''README'']"

definition contents_url :: "pystr \<Rightarrow> pystr \<Rightarrow> pystr" where
  "contents_url repo_name readme_file =
     base_url @ asc ''/repos/'' @ org_name @ asc ''/'' @ repo_name @ asc ''/contents/'' @ readme_file"

text \<open>
  What the collector sees of the world: the two endpoints, the standard library's
  \<^verbatim>\<open>base64.b64decode(...).decode('utf-8')\<close> (\<open>None\<close>: it raises), which paths can be
  written, and the clock read by \<^verbatim>\<open>time.strftime\<close>.
\<close>

record collector_env =
  repos_api :: "nat \<Rightarrow> page_response"
  contents_api :: "pystr \<Rightarrow> contents_response"
  b64decode_utf8 :: "pystr \<Rightarrow> pystr option"
  can_write :: "pystr \<Rightarrow> bool"
  clock :: pystr

text \<open>
  The body of the \<^verbatim>\<open>try\<close> for one candidate: \<open>Inl e\<close> is an exception raised in it,
  \<open>Inr (Some c)\<close> is \<^verbatim>\<open>return readme_content\<close>, \<open>Inr None\<close> is falling out of the
  two \<^verbatim>\<open>if\<close>s.
\<close>

definition try_readme_file :: "(pystr \<Rightarrow> pystr option) \<Rightarrow> contents_response \<Rightarrow> exn + pystr option" where
  "try_readme_file decode response =
     (case response of
        ConnectionFailed \<Rightarrow> Inl RequestError
      | Response status content_data \<Rightarrow>
          if status = 200 then
            (case content_data of
               BadJson \<Rightarrow> Inl JsonError
             | JsonObject enc cont \<Rightarrow>
                 if enc = Some (asc ''base64'') then
                   (case cont of
                      None \<Rightarrow> Inl (KeyError (asc ''content''))
                    | Some c \<Rightarrow>
                        (case decode c of
                           None \<Rightarrow> Inl DecodeError
                         | Some readme_content \<Rightarrow> Inr (Some readme_content)))
                 else Inr None)
          else Inr None)"

text \<open>
  The \<^verbatim>\<open>for readme_file in readme_files\<close> loop; an exception is caught and the loop
  continues. The second component lists the URLs requested, in order.
\<close>

fun readme_loop ::
  "collector_env \<Rightarrow> pystr \<Rightarrow> pystr list \<Rightarrow> pystr list \<Rightarrow> pystr option \<times> pystr list" where
  "readme_loop env repo_name [] requested = (None, requested)"
| "readme_loop env repo_name (readme_file # rest) requested =
     (let url = contents_url repo_name readme_file in
      case try_readme_file (b64decode_utf8 env) (contents_api env url) of
        Inr (Some readme_content) \<Rightarrow> (Some readme_content, requested @ [url])
      | Inr None \<Rightarrow> readme_loop env repo_name rest (requested @ [url])
      | Inl e \<Rightarrow> readme_loop env repo_name rest (requested @ [url]))"

definition get_repo_readme :: "collector_env \<Rightarrow> pystr \<Rightarrow> pystr option \<times> pystr list" where
  "get_repo_readme env repo_name = readme_loop env repo_name readme_files []"

subsection \<open>Files\<close>

text \<open>
  Dictionaries that are written out keep Python's insertion order: an association list,
  updated with \<open>AList.update\<close> (a new key goes to the end, an old key keeps its place).
\<close>

record collection_summary =
  collection_time :: pystr
  total_repos :: int
  successful_collections :: int
  failed_collections :: int
  collected_repos :: "pystr list"
  file_paths :: "(pystr \<times> pystr) list"

record summary_record =
  sr_repo_name :: pystr
  sr_summary :: pystr
  sr_metadata :: "(pystr \<times> pystr) list"
  sr_generated_at :: pystr
  sr_llm_type :: pystr

text \<open>
  What is written to a file: text, or a JSON document (kept as the value that
  \<^verbatim>\<open>json.dump\<close> receives).
\<close>

datatype file_content =
    TextFile pystr
  | CollectionSummaryJson collection_summary
  | SummaryJson summary_record

type_synonym writes = "(pystr \<times> file_content) list"

definition path_join :: "pystr \<Rightarrow> pystr \<Rightarrow> pystr" where
  "path_join a b = a @ asc ''/'' @ b"

subsection \<open>save_readme_to_file\<close>

definition save_readme_to_file ::
  "collector_env \<Rightarrow> pystr \<Rightarrow> pystr \<Rightarrow> writes \<Rightarrow> exn + (pystr \<times> writes)" where
  "save_readme_to_file env repo_name cont written =
     (let repo_dir = path_join readme_dir repo_name;
          filepath = path_join repo_dir (asc ''README.md'')
      in if can_write env filepath
         then Inr (filepath, written @ [(filepath, TextFile cont)])
         else Inl OSError)"

subsection \<open>collect_all_readmes\<close>

definition get_default :: "'a option \<Rightarrow> 'a \<Rightarrow> 'a" where
  "get_default v d = (case v of None \<Rightarrow> d | Some x \<Rightarrow> x)"

definition repo_info :: "repo \<Rightarrow> pystr \<Rightarrow> pystr \<Rightarrow> pystr" where
  "repo_info r repo_name readme_content =
     asc ''# '' @ repo_name @ [10, 10]
     @ asc ''**'' @ [0x4ed3, 0x5e93, 0x63cf, 0x8ff0] @ asc ''**: ''
       @ get_default (description r) [0x65e0, 0x63cf, 0x8ff0] @ [10]
     @ asc ''**'' @ [0x4ed3, 0x5e93, 0x5730, 0x5740] @ asc ''**: ''
       @ get_default (html_url r) [] @ [10]
     @ asc ''**'' @ [0x521b, 0x5efa, 0x65f6, 0x95f4] @ asc ''**: ''
       @ get_default (created_at r) [] @ [10]
     @ asc ''**'' @ [0x66f4, 0x65b0, 0x65f6, 0x95f4] @ asc ''**: ''
       @ get_default (updated_at r) [] @ [10]
     @ asc ''**'' @ [0x4e3b, 0x8981, 0x8bed, 0x8a00] @ asc ''**: ''
       @ get_default (language r) [0x672a, 0x77e5] @ [10]
     @ asc ''**Star'' @ [0x6570] @ asc ''**: ''
       @ get_default (stargazers_count r) (asc ''0'') @ [10]
     @ [10] @ asc ''---'' @ [10, 10]
     @ readme_content @ [10]"

text \<open>
  The state of the loop over the repositories: the two counters, the dictionary
  \<^verbatim>\<open>file_paths\<close>, the files written so far, the names of the repositories whose
  processing has begun, and the URLs requested.
\<close>

record collect_state =
  success_count :: nat
  failed_count :: nat
  paths :: "(pystr \<times> pystr) list"
  written :: writes
  handled :: "pystr list"
  fetched :: "pystr list"

definition collect_init :: collect_state where
  "collect_init =
     \<lparr>success_count = 0, failed_count = 0, paths = [], written = [], handled = [], fetched = []\<rparr>"

text \<open>
  The body of the \<^verbatim>\<open>try\<close> for one repository whose name has been read, started in a
  state where the repository is already logged. An empty README is falsy in
  \<^verbatim>\<open>if readme_content\<close>.
\<close>

definition collect_try ::
  "collector_env \<Rightarrow> repo \<Rightarrow> pystr \<Rightarrow> collect_state \<Rightarrow> exn + collect_state" where
  "collect_try env r repo_name st =
     (let (readme_content, urls) = get_repo_readme env repo_name;
          st1 = st\<lparr>fetched := fetched st @ urls\<rparr>
      in case readme_content of
           None \<Rightarrow> Inr (st1\<lparr>failed_count := failed_count st1 + 1\<rparr>)
         | Some c \<Rightarrow>
             if c \<noteq> [] then
               (case save_readme_to_file env repo_name (repo_info r repo_name c) (written st1) of
                  Inl e \<Rightarrow> Inl e
                | Inr (filepath, written') \<Rightarrow>
                    Inr (st1\<lparr>paths := AList.update repo_name filepath (paths st1),
                             success_count := success_count st1 + 1,
                             written := written'\<rparr>))
             else Inr (st1\<lparr>failed_count := failed_count st1 + 1\<rparr>))"

text \<open>
  The \<^verbatim>\<open>try\<close> statement of one iteration, for a repository whose name has been read:
  the \<^verbatim>\<open>except Exception\<close> branch counts a failure and continues. The requests made
  before the exception stay made.
\<close>

definition collect_item ::
  "collector_env \<Rightarrow> collect_state \<Rightarrow> repo \<Rightarrow> pystr \<Rightarrow> collect_state" where
  "collect_item env st r repo_name =
     (let st0 = st\<lparr>handled := handled st @ [repo_name]\<rparr> in
      case collect_try env r repo_name st0 of
        Inr st' \<Rightarrow> st'
      | Inl e \<Rightarrow> st0\<lparr>failed_count := failed_count st0 + 1,
                      fetched := fetched st0 @ snd (get_repo_readme env repo_name)\<rparr>)"

text \<open>
  One iteration. \<^verbatim>\<open>repo_name = repo['name']\<close> stands before the \<^verbatim>\<open>try\<close>: its
  \<^verbatim>\<open>KeyError\<close> is not caught in the loop.
\<close>

definition collect_step :: "collector_env \<Rightarrow> collect_state \<Rightarrow> repo \<Rightarrow> exn + collect_state" where
  "collect_step env st r =
     (case name r of
        None \<Rightarrow> Inl (KeyError (asc ''name''))
      | Some repo_name \<Rightarrow> Inr (collect_item env st r repo_name))"

text \<open>
  The \<^verbatim>\<open>for repo in repos\<close> loop from a state: the exception that ends it early, if
  any, and the state it reached.
\<close>

fun collect_items ::
  "collector_env \<Rightarrow> collect_state \<Rightarrow> repo list \<Rightarrow> exn option \<times> collect_state" where
  "collect_items env st [] = (None, st)"
| "collect_items env st (r # rs) =
     (case collect_step env st r of
        Inl e \<Rightarrow> (Some e, st)
      | Inr st' \<Rightarrow> collect_items env st' rs)"

definition collect_loop :: "collector_env \<Rightarrow> repo list \<Rightarrow> exn option \<times> collect_state" where
  "collect_loop env repos = collect_items env collect_init repos"

definition summary_path :: pystr where
  "summary_path = path_join readme_dir (asc ''collection_summary.json'')"

definition save_collection_summary ::
  "collector_env \<Rightarrow> repo list \<Rightarrow> (pystr \<times> pystr) list \<Rightarrow> writes \<Rightarrow> exn + writes" where
  "save_collection_summary env repos fps w =
     (let summary =
            \<lparr>collection_time = clock env,
             total_repos = int (length repos),
             successful_collections = int (length fps),
             failed_collections = int (length repos) - int (length fps),
             collected_repos = map fst fps,
             file_paths = fps\<rparr>
      in if can_write env summary_path
         then Inr (w @ [(summary_path, CollectionSummaryJson summary)])
         else Inl OSError)"

text \<open>
  \<^verbatim>\<open>collect_all_readmes\<close> after the repository list has been fetched: the returned
  dictionary or the exception that leaves the method, together with the state reached
  (its \<open>written\<close> holding every file written by the run).
\<close>

definition collect_all_from ::
  "collector_env \<Rightarrow> repo list \<Rightarrow> (exn + (pystr \<times> pystr) list) \<times> collect_state" where
  "collect_all_from env repos =
     (if repos = [] then (Inr [], collect_init)
      else
        case collect_loop env repos of
          (Some e, st) \<Rightarrow> (Inl e, st)
        | (None, st) \<Rightarrow>
            (case save_collection_summary env repos (paths st) (written st) of
               Inl e \<Rightarrow> (Inl e, st)
             | Inr w \<Rightarrow> (Inr (paths st), st\<lparr>written := w\<rparr>)))"

definition collect_all_readmes ::
  "collector_env \<Rightarrow> ((exn + (pystr \<times> pystr) list) \<times> collect_state) option" where
  "collect_all_readmes env =
     (case get_organization_repos (repos_api env) of
        None \<Rightarrow> None
      | Some (repos, pages) \<Rightarrow> Some (collect_all_from env repos))"

text \<open>The run-summary documents among the files written.\<close>

definition summaries_written :: "writes \<Rightarrow> collection_summary list" where
  "summaries_written w =
     concat (map (\<lambda>(p, c). case c of CollectionSummaryJson s \<Rightarrow> [s] | _ \<Rightarrow> []) w)"

subsection \<open>The candidate order, as the specification words it\<close>

text \<open>
  \<open>spec_candidate_content\<close>: the decoded content of a candidate that yields a 200
  response with base64 encoding, and \<open>None\<close> for any other candidate.
  \<open>spec_first_content\<close>: the content of the first such candidate of a list.
\<close>

definition spec_candidate_content :: "collector_env \<Rightarrow> pystr \<Rightarrow> pystr \<Rightarrow> pystr option" where
  "spec_candidate_content env repo_name readme_file =
     (case contents_api env (contents_url repo_name readme_file) of
        Response status (JsonObject (Some enc) (Some c)) \<Rightarrow>
          if status = 200 \<and> enc = asc ''base64'' then b64decode_utf8 env c else None
      | _ \<Rightarrow> None)"

fun spec_first_content :: "collector_env \<Rightarrow> pystr \<Rightarrow> pystr list \<Rightarrow> pystr option" where
  "spec_first_content env repo_name [] = None"
| "spec_first_content env repo_name (f # fs) =
     (case spec_candidate_content env repo_name f of
        Some c \<Rightarrow> Some c
      | None \<Rightarrow> spec_first_content env repo_name fs)"

subsection \<open>The outcome of one item\<close>

definition readme_path :: "pystr \<Rightarrow> pystr" where
  "readme_path repo_name = path_join (path_join readme_dir repo_name) (asc ''README.md'')"

text \<open>
  The outcome of one repository name on its own: collected when a non-empty README was
  found and its file could be written; raising (inside the \<^verbatim>\<open>try\<close>) when the README
  was found and the write failed.
\<close>

definition name_collected :: "collector_env \<Rightarrow> pystr \<Rightarrow> bool" where
  "name_collected env repo_name =
     (case fst (get_repo_readme env repo_name) of
        None \<Rightarrow> False
      | Some c \<Rightarrow> c \<noteq> [] \<and> can_write env (readme_path repo_name))"


text \<open>The names of the records of a list that carry one, in order.\<close>

definition repo_names :: "repo list \<Rightarrow> pystr list" where
  "repo_names repos = concat (map (\<lambda>r. case name r of None \<Rightarrow> [] | Some n \<Rightarrow> [n]) repos)"

definition repo_collected :: "collector_env \<Rightarrow> repo \<Rightarrow> bool" where
  "repo_collected env r = (case name r of None \<Rightarrow> False | Some n \<Rightarrow> name_collected env n)"

subsection \<open>A small world to run the collector in\<close>

definition example_repo :: "pystr \<Rightarrow> repo" where
  "example_repo n =
     \<lparr>name = Some n, description = None, html_url = None, created_at = None,
      updated_at = None, language = None, stargazers_count = None\<rparr>"

text \<open>A record without the key \<^verbatim>\<open>name\<close>.\<close>

definition example_nameless :: repo where
  "example_nameless =
     \<lparr>name = None, description = Some (asc ''no name''), html_url = None, created_at = None,
      updated_at = None, language = None, stargazers_count = None\<rparr>"

text \<open>
  Two repositories on one page. Repository \<open>a\<close> has both \<^verbatim>\<open>README.md\<close> and
  \<^verbatim>\<open>readme.md\<close>, repository \<open>b\<close> has no README, repository \<open>c\<close> has only
  \<^verbatim>\<open>README\<close>. Every path can be written; in \<open>example_env_locked\<close> the README file of
  \<open>a\<close> cannot.
\<close>

definition example_pages :: "nat \<Rightarrow> page_response" where
  "example_pages n =
     (if n = 1 then Page [example_repo (asc ''a''), example_repo (asc ''b'')] else Page [])"

definition example_full_pages :: "nat \<Rightarrow> page_response" where
  "example_full_pages n =
     (if n = 1 then Page (replicate per_page (example_repo (asc ''a''))) else Page [])"

definition example_contents :: "pystr \<Rightarrow> contents_response" where
  "example_contents url =
     (if url = contents_url (asc ''a'') (asc ''README.md'')
      then Response 200 (JsonObject (Some (asc ''base64'')) (Some (asc ''QQ=='')))
      else if url = contents_url (asc ''a'') (asc ''readme.md'')
      then Response 200 (JsonObject (Some (asc ''base64'')) (Some (asc ''Qg=='')))
      else if url = contents_url (asc ''c'') (asc ''README'')
      then Response 200 (JsonObject (Some (asc ''base64'')) (Some (asc ''Qw=='')))
      else Response 404 BadJson)"

definition example_decode :: "pystr \<Rightarrow> pystr option" where
  "example_decode c =
     (if c = asc ''QQ=='' then Some (asc ''A'')
      else if c = asc ''Qg=='' then Some (asc ''B'')
      else if c = asc ''Qw=='' then Some (asc ''C'')
      else None)"

definition example_env :: collector_env where
  "example_env =
     \<lparr>repos_api = example_pages, contents_api = example_contents,
      b64decode_utf8 = example_decode, can_write = (\<lambda>p. True),
      clock = asc ''2024-01-01 00:00:00''\<rparr>"

definition example_env_locked :: collector_env where
  "example_env_locked = example_env\<lparr>can_write := (\<lambda>p. p \<noteq> readme_path (asc ''a''))\<rparr>"

section \<open>Summary generator (database/text_summary_readme.py)\<close>

subsection \<open>Regular expressions\<close>

text \<open>
  \<^verbatim>\<open>re.sub\<close> with a pattern that never matches the empty string: scan from the left;
  at a position where the pattern matches (\<open>m\<close> gives the length of the match there),
  emit the replacement and go on behind the match; elsewhere copy the character.
\<close>

fun re_sub :: "(pystr \<Rightarrow> nat option) \<Rightarrow> pystr \<Rightarrow> pystr \<Rightarrow> pystr" where
  "re_sub m repl [] = []"
| "re_sub m repl (c # cs) =
     (case m (c # cs) of
        Some n \<Rightarrow> repl @ re_sub m repl (drop (n - 1) cs)
      | None \<Rightarrow> c # re_sub m repl cs)"

text \<open>\<^verbatim>\<open>pattern.search(t) is not None\<close>: the pattern matches at some position of \<open>t\<close>.\<close>

fun re_search :: "(pystr \<Rightarrow> nat option) \<Rightarrow> pystr \<Rightarrow> bool" where
  "re_search m [] = False"
| "re_search m (c # cs) = (m (c # cs) \<noteq> None \<or> re_search m cs)"

text \<open>The number of positions of \<open>t\<close> at which the pattern matches.\<close>

fun count_matches :: "(pystr \<Rightarrow> nat option) \<Rightarrow> pystr \<Rightarrow> nat" where
  "count_matches m [] = 0"
| "count_matches m (c # cs) = (if m (c # cs) \<noteq> None then 1 else 0) + count_matches m cs"

subsection \<open>The URL pattern\<close>

text \<open>
  \<^verbatim>\<open>http[s]?://(?:[a-zA-Z]|[0-9]|[$-_@.&+]|[!*\\(\\),]|(?:%[0-9a-fA-F][0-9a-fA-F]))+\<close>

  \<open>url_char\<close> is the union of the four one-character alternatives, in their order;
  \<^verbatim>\<open>$-_\<close> inside the third class is the range from \<^verbatim>\<open>$\<close> (36) to \<^verbatim>\<open>_\<close> (95).
\<close>

definition url_char :: "nat \<Rightarrow> bool" where
  "url_char c =
     ((97 \<le> c \<and> c \<le> 122 \<or> 65 \<le> c \<and> c \<le> 90)
      \<or> (48 \<le> c \<and> c \<le> 57)
      \<or> (36 \<le> c \<and> c \<le> 95 \<or> c = 64 \<or> c = 46 \<or> c = 38 \<or> c = 43)
      \<or> (c = 33 \<or> c = 42 \<or> c = 92 \<or> c = 40 \<or> c = 41 \<or> c = 44))"

definition hex_digit :: "nat \<Rightarrow> bool" where
  "hex_digit c = (48 \<le> c \<and> c \<le> 57 \<or> 97 \<le> c \<and> c \<le> 102 \<or> 65 \<le> c \<and> c \<le> 70)"

text \<open>
  One round of the group: the number of characters taken by the first alternative that
  matches at the head of the text.
\<close>

fun url_unit :: "pystr \<Rightarrow> nat option" where
  "url_unit [] = None"
| "url_unit (c # cs) =
     (if url_char c then Some 1
      else if c = 37 \<and> 2 \<le> length cs \<and> hex_digit (cs ! 0) \<and> hex_digit (cs ! 1) then Some 3
      else None)"

text \<open>
  The greedy \<^verbatim>\<open>(...)+\<close>: nothing follows it in the pattern, so it takes rounds as long
  as one matches. The result is the number of characters taken (0: not even one round).
\<close>

fun url_run :: "pystr \<Rightarrow> nat" where
  "url_run [] = 0"
| "url_run (c # cs) =
     (case url_unit (c # cs) of
        None \<Rightarrow> 0
      | Some n \<Rightarrow> n + url_run (drop (n - 1) cs))"

text \<open>
  The length of the match of the URL pattern at the head of the text. The optional
  \<^verbatim>\<open>s\<close> is tried first; without it the pattern needs \<^verbatim>\<open>://\<close> right behind
  \<^verbatim>\<open>http\<close>. The pattern is compiled without flags: it is case-sensitive.
\<close>

definition match_url :: "pystr \<Rightarrow> nat option" where
  "match_url t =
     (if prefix (asc ''http'') t then
        (let r = drop 4 t in
         if prefix (asc ''s://'') r \<and> 0 < url_run (drop 4 r) then Some (8 + url_run (drop 4 r))
         else if prefix (asc ''://'') r \<and> 0 < url_run (drop 3 r) then Some (7 + url_run (drop 3 r))
         else None)
      else None)"

definition url_token :: pystr where
  "url_token = asc ''[URL]''"

subsection \<open>The sensitive words\<close>

text \<open>
  The list \<^verbatim>\<open>self.sensitive_words\<close> in its order. The first, sixth, seventh and last
  word are Chinese (password, private key, access token, secret key) and written as
  code points, as is the inner part of the redaction token.
\<close>

definition sensitive_words :: "pystr list" where
  "sensitive_words =
     [0x5bc6, 0x7801] #
     asc ''password'' #
     asc ''token'' #
     asc ''secret'' #
     asc ''key'' #
     [0x79c1, 0x94a5] #
     [0x8bbf, 0x95ee, 0x4ee4, 0x724c] #
     asc ''api_key'' #
     asc ''access_token'' #
     asc ''private_key'' #
     [0x79d8, 0x94a5] # []"

definition redaction_token :: pystr where
  "redaction_token = asc ''['' @ [0x654f, 0x611f, 0x4fe1, 0x606f] @ asc '']''"

text \<open>
  A character \<open>p\<close> of an escaped literal pattern against a character \<open>c\<close> of the text
  under \<^verbatim>\<open>re.IGNORECASE\<close>, for a pattern character that is an ASCII character or has no
  case (all characters of the word list are such): the two are equal, or \<open>p\<close> is an
  ASCII letter and \<open>c\<close> is the same letter in the other case, or \<open>c\<close> is one of the
  four non-ASCII characters that Unicode case folding identifies with \<^verbatim>\<open>i\<close>, \<^verbatim>\<open>k\<close>
  and \<^verbatim>\<open>s\<close> (U+0130, U+0131, U+212A, U+017F).
\<close>

definition ascii_lower :: "nat \<Rightarrow> nat" where
  "ascii_lower c = (if 65 \<le> c \<and> c \<le> 90 then c + 32 else c)"

definition ci_match :: "nat \<Rightarrow> nat \<Rightarrow> bool" where
  "ci_match p c =
     (c = p
      \<or> (97 \<le> ascii_lower p \<and> ascii_lower p \<le> 122 \<and> ascii_lower c = ascii_lower p)
      \<or> (ascii_lower p = 105 \<and> (c = 0x130 \<or> c = 0x131))
      \<or> (ascii_lower p = 107 \<and> c = 0x212a)
      \<or> (ascii_lower p = 115 \<and> c = 0x17f))"

fun ci_prefix :: "pystr \<Rightarrow> pystr \<Rightarrow> bool" where
  "ci_prefix [] t = True"
| "ci_prefix (p # ps) [] = False"
| "ci_prefix (p # ps) (c # cs) = (ci_match p c \<and> ci_prefix ps cs)"

text \<open>The match of \<^verbatim>\<open>re.escape(word)\<close> with \<^verbatim>\<open>re.IGNORECASE\<close> at the head of the text.\<close>

definition match_word :: "pystr \<Rightarrow> pystr \<Rightarrow> nat option" where
  "match_word word t = (if ci_prefix word t then Some (length word) else None)"

subsection \<open>filter_content\<close>

text \<open>The loop \<^verbatim>\<open>for word in self.sensitive_words\<close>, for any list of words.\<close>

definition redact_words :: "pystr list \<Rightarrow> pystr \<Rightarrow> pystr" where
  "redact_words ws filtered =
     foldl (\<lambda>filtered_content word. re_sub (match_word word) redaction_token filtered_content)
       filtered ws"

definition filter_content :: "pystr \<Rightarrow> pystr" where
  "filter_content content = redact_words sensitive_words (re_sub match_url url_token content)"

text \<open>The literal redaction token at the head of the text.\<close>

definition match_token :: "pystr \<Rightarrow> nat option" where
  "match_token t = (if prefix redaction_token t then Some (length redaction_token) else None)"

text \<open>
  A place where a redaction token will complete a URL match: \<^verbatim>\<open>http://\<close> or
  \<^verbatim>\<open>https://\<close> directly followed by a sensitive word (in any case) whose first
  character is outside the character class of the URL pattern. \<open>unsafe_word\<close> is the
  second half, \<open>match_exposed\<close> the whole, as a pattern for \<open>re_search\<close>.
\<close>

definition unsafe_word :: "pystr \<Rightarrow> bool" where
  "unsafe_word t =
     (case t of
        [] \<Rightarrow> False
      | y # ys \<Rightarrow> \<not> url_char y \<and> list_ex (\<lambda>w. ci_prefix w (y # ys)) sensitive_words)"

definition match_exposed :: "pystr \<Rightarrow> nat option" where
  "match_exposed t =
     (if prefix (asc ''http://'') t \<and> unsafe_word (drop 7 t) then Some 7
      else if prefix (asc ''https://'') t \<and> unsafe_word (drop 8 t) then Some 8
      else None)"

subsection \<open>The language-model client\<close>

text \<open>
  \<^verbatim>\<open>api_key or os.getenv(...)\<close> and \<^verbatim>\<open>not api_key\<close>: \<open>None\<close> and the empty string
  are both falsy.
\<close>

definition py_or :: "pystr option \<Rightarrow> pystr option \<Rightarrow> pystr option" where
  "py_or a b = (case a of None \<Rightarrow> b | Some x \<Rightarrow> if x = [] then b else Some x)"

datatype client = ZhipuAI pystr | OpenAI pystr pystr

text \<open>
  The outcome of the \<^verbatim>\<open>try\<close> block around the chat-completion request: the content of
  the first choice, or an exception with its message \<^verbatim>\<open>str(e)\<close>.
\<close>

datatype llm_outcome = Reply pystr | Failed pystr

text \<open>
  What the summary generator sees of the world: the two environment variables, whether
  the output directory can be created, the completion endpoint (client, model name,
  prompt), which paths can be written, and the working directory.
\<close>

record summarizer_env =
  zhipuai_api_key :: "pystr option"
  openai_api_key :: "pystr option"
  can_mkdir :: bool
  chat_completion :: "client \<Rightarrow> pystr \<Rightarrow> pystr \<Rightarrow> llm_outcome"
  can_write_summary :: "pystr \<Rightarrow> bool"
  cwd :: pystr

record summarizer =
  llm_type :: pystr
  client :: "client option"

definition setup_llm :: "summarizer_env \<Rightarrow> pystr \<Rightarrow> pystr option \<Rightarrow> exn + client option" where
  "setup_llm env ltype api_key =
     (if ltype = asc ''zhipuai'' then
        (case py_or api_key (zhipuai_api_key env) of
           None \<Rightarrow> Inl (ValueError
             ([0x8bf7, 0x5728] @ asc ''.env'' @ [0x6587, 0x4ef6, 0x4e2d, 0x8bbe, 0x7f6e]
              @ asc ''ZHIPUAI_API_KEY'' @ [0x6216, 0x4f20, 0x5165] @ asc ''api_key''
              @ [0x53c2, 0x6570]))
         | Some k \<Rightarrow>
             if k = [] then Inl (ValueError
               ([0x8bf7, 0x5728] @ asc ''.env'' @ [0x6587, 0x4ef6, 0x4e2d, 0x8bbe, 0x7f6e]
                @ asc ''ZHIPUAI_API_KEY'' @ [0x6216, 0x4f20, 0x5165] @ asc ''api_key''
                @ [0x53c2, 0x6570]))
             else Inr (Some (ZhipuAI k)))
      else if ltype = asc ''openai'' then
        (case py_or api_key (openai_api_key env) of
           None \<Rightarrow> Inl (ValueError
             ([0x8bf7, 0x5728] @ asc ''.env'' @ [0x6587, 0x4ef6, 0x4e2d, 0x8bbe, 0x7f6e]
              @ asc ''OPENAI_API_KEY'' @ [0x6216, 0x4f20, 0x5165] @ asc ''api_key''
              @ [0x53c2, 0x6570]))
         | Some k \<Rightarrow>
             if k = [] then Inl (ValueError
               ([0x8bf7, 0x5728] @ asc ''.env'' @ [0x6587, 0x4ef6, 0x4e2d, 0x8bbe, 0x7f6e]
                @ asc ''OPENAI_API_KEY'' @ [0x6216, 0x4f20, 0x5165] @ asc ''api_key''
                @ [0x53c2, 0x6570]))
             else Inr (Some (OpenAI k (asc ''https://api.chatanywhere.tech/v1''))))
      else Inr None)"

text \<open>
  The constructor: \<^verbatim>\<open>setup_llm\<close>, then the creation of the output directory. An
  instance whose \<^verbatim>\<open>setup_llm\<close> took neither branch has no \<^verbatim>\<open>client\<close> attribute.
\<close>

definition summarizer_init :: "summarizer_env \<Rightarrow> pystr \<Rightarrow> pystr option \<Rightarrow> exn + summarizer" where
  "summarizer_init env ltype api_key =
     (case setup_llm env ltype api_key of
        Inl e \<Rightarrow> Inl e
      | Inr c \<Rightarrow>
          if can_mkdir env then Inr \<lparr>llm_type = ltype, client = c\<rparr> else Inl OSError)"

subsection \<open>generate_summary\<close>

definition is_space :: "nat \<Rightarrow> bool" where
  "is_space c =
     (9 \<le> c \<and> c \<le> 13 \<or> 0x1c \<le> c \<and> c \<le> 0x20 \<or> c = 0x85 \<or> c = 0xa0 \<or> c = 0x1680
      \<or> 0x2000 \<le> c \<and> c \<le> 0x200a \<or> c = 0x2028 \<or> c = 0x2029 \<or> c = 0x202f
      \<or> c = 0x205f \<or> c = 0x3000)"

definition py_strip :: "pystr \<Rightarrow> pystr" where
  "py_strip t = rev (dropWhile is_space (rev (dropWhile is_space t)))"

definition prompt :: "pystr \<Rightarrow> pystr" where
  "prompt cont =
     ([10, 0x8bf7, 0x4e3a, 0x4ee5, 0x4e0b] @ asc ''README''
      @ [0x5185, 0x5bb9, 0x751f, 0x6210, 0x4e00, 0x4e2a, 0x7b80, 0x6d01, 0x7684, 0x6458,
         0x8981, 0xff0c, 0x8981, 0x6c42, 0xff1a, 10]
      @ asc ''1. '' @ [0x6458, 0x8981, 0x957f, 0x5ea6, 0x4e0d, 0x8d85, 0x8fc7]
      @ asc ''200'' @ [0x5b57, 10] @ asc ''2. ''
      @ [0x63d0, 0x70bc, 0x9879, 0x76ee, 0x7684, 0x6838, 0x5fc3, 0x5185, 0x5bb9, 10]
      @ asc ''3. '' @ [0x4f7f, 0x7528, 0x4e2d, 0x6587, 0x8f93, 0x51fa, 10]
      @ asc ''4. ''
      @ [0x4fdd, 0x6301, 0x4e13, 0x4e1a, 0x6027, 0x548c, 0x51c6, 0x786e, 0x6027, 10, 10]
      @ asc ''README'' @ [0x5185, 0x5bb9, 0xff1a, 10])
     @ cont
     @ [10, 10, 0x8bf7, 0x751f, 0x6210, 0x6458, 0x8981, 0xff1a, 10]"

text \<open>The prefix of the summary that stands for a failed call.\<close>

definition failure_prefix :: pystr where
  "failure_prefix = [0x6458, 0x8981, 0x751f, 0x6210, 0x5931, 0x8d25] @ asc '': ''"

definition no_client_message :: pystr where
  "no_client_message =
     [39] @ asc ''ReadmeSummarizer'' @ [39] @ asc '' object has no attribute ''
     @ [39] @ asc ''client'' @ [39]"

text \<open>
  The two backends. Reading the missing \<^verbatim>\<open>client\<close> attribute raises inside the
  \<^verbatim>\<open>try\<close> as well.
\<close>

definition generate_summary_zhipuai :: "summarizer_env \<Rightarrow> summarizer \<Rightarrow> pystr \<Rightarrow> pystr" where
  "generate_summary_zhipuai env s cont =
     (case client s of
        None \<Rightarrow> failure_prefix @ no_client_message
      | Some cl \<Rightarrow>
          (case chat_completion env cl (asc ''glm-4'') (prompt cont) of
             Reply r \<Rightarrow> py_strip r
           | Failed msg \<Rightarrow> failure_prefix @ msg))"

definition generate_summary_openai :: "summarizer_env \<Rightarrow> summarizer \<Rightarrow> pystr \<Rightarrow> pystr" where
  "generate_summary_openai env s cont =
     (case client s of
        None \<Rightarrow> failure_prefix @ no_client_message
      | Some cl \<Rightarrow>
          (case chat_completion env cl (asc ''gpt-3.5-turbo'') (prompt cont) of
             Reply r \<Rightarrow> py_strip r
           | Failed msg \<Rightarrow> failure_prefix @ msg))"

definition unsupported_prefix :: pystr where
  "unsupported_prefix =
     [0x4e0d, 0x652f, 0x6301, 0x7684] @ asc ''LLM'' @ [0x7c7b, 0x578b] @ asc '': ''"

definition generate_summary :: "summarizer_env \<Rightarrow> summarizer \<Rightarrow> pystr \<Rightarrow> exn + pystr" where
  "generate_summary env s cont =
     (if llm_type s = asc ''zhipuai'' then Inr (generate_summary_zhipuai env s cont)
      else if llm_type s = asc ''openai'' then Inr (generate_summary_openai env s cont)
      else Inl (ValueError (unsupported_prefix @ llm_type s)))"

text \<open>The model name that the backend of an instance passes to the completion endpoint.\<close>

definition backend_model :: "summarizer \<Rightarrow> pystr" where
  "backend_model s = (if llm_type s = asc ''zhipuai'' then asc ''glm-4'' else asc ''gpt-3.5-turbo'')"

subsection \<open>save_summary and process_all_readmes\<close>

record readme_info =
  ri_repo_name :: pystr
  ri_file_path :: pystr
  ri_content :: pystr
  ri_metadata :: "(pystr \<times> pystr) list"

definition summary_output_path :: pystr where
  "summary_output_path = asc ''knowledge_db/readme_summary''"

definition summary_file :: "pystr \<Rightarrow> pystr" where
  "summary_file repo_name = path_join summary_output_path (repo_name @ asc ''_summary.json'')"

text \<open>\<^verbatim>\<open>save_summary\<close> catches a failed write itself: it never raises.\<close>

definition save_summary ::
  "summarizer_env \<Rightarrow> summarizer \<Rightarrow> pystr \<Rightarrow> pystr \<Rightarrow> (pystr \<times> pystr) list \<Rightarrow> writes \<Rightarrow> writes" where
  "save_summary env s repo_name summary metadata w =
     (let summary_data =
            \<lparr>sr_repo_name = repo_name, sr_summary = summary, sr_metadata = metadata,
             sr_generated_at = cwd env, sr_llm_type = llm_type s\<rparr>;
          output_file = summary_file repo_name
      in if can_write_summary env output_file
         then w @ [(output_file, SummaryJson summary_data)]
         else w)"

text \<open>
  The state of the loop over the README documents: the counter, the files written, the
  names of the documents whose processing has begun, the exceptions caught, and the
  documents for which \<^verbatim>\<open>save_summary\<close> was called, each with its summary.
\<close>

record process_state =
  ps_success_count :: nat
  ps_written :: writes
  ps_handled :: "pystr list"
  ps_errors :: "exn list"
  ps_saved :: "(pystr \<times> pystr) list"

definition process_init :: process_state where
  "process_init =
     \<lparr>ps_success_count = 0, ps_written = [], ps_handled = [], ps_errors = [], ps_saved = []\<rparr>"

definition process_try ::
  "summarizer_env \<Rightarrow> summarizer \<Rightarrow> readme_info \<Rightarrow> process_state \<Rightarrow> exn + process_state" where
  "process_try env s info st =
     (let filtered_content = filter_content (ri_content info) in
      case generate_summary env s filtered_content of
        Inl e \<Rightarrow> Inl e
      | Inr summary \<Rightarrow>
          Inr (st\<lparr>ps_written :=
                     save_summary env s (ri_repo_name info) summary (ri_metadata info) (ps_written st),
                   ps_saved := ps_saved st @ [(ri_repo_name info, summary)],
                   ps_success_count := ps_success_count st + 1\<rparr>))"

definition process_step ::
  "summarizer_env \<Rightarrow> summarizer \<Rightarrow> process_state \<Rightarrow> readme_info \<Rightarrow> process_state" where
  "process_step env s st info =
     (let st0 = st\<lparr>ps_handled := ps_handled st @ [ri_repo_name info]\<rparr> in
      case process_try env s info st0 of
        Inr st' \<Rightarrow> st'
      | Inl e \<Rightarrow> st0\<lparr>ps_errors := ps_errors st0 @ [e]\<rparr>)"

text \<open>\<^verbatim>\<open>process_all_readmes\<close> on the documents that \<^verbatim>\<open>read_readme_files\<close> returned.\<close>

definition process_all_readmes ::
  "summarizer_env \<Rightarrow> summarizer \<Rightarrow> readme_info list \<Rightarrow> process_state" where
  "process_all_readmes env s readme_infos =
     (if readme_infos = [] then process_init
      else foldl (process_step env s) process_init readme_infos)"

subsection \<open>A small world to run the summary generator in\<close>

text \<open>
  The number of occurrences of sensitive words in a text: for each word of the list, the
  number of positions at which it matches.
\<close>

definition count_sensitive :: "pystr \<Rightarrow> nat" where
  "count_sensitive t = sum_list (map (\<lambda>w. count_matches (match_word w) t) sensitive_words)"

text \<open>
  An input with a URL, then \<^verbatim>\<open>http://\<close> directly followed by the first sensitive word
  of the list, then \<^verbatim>\<open>access_token\<close>.
\<close>

definition example_text :: pystr where
  "example_text = asc ''http://a http://'' @ [0x5bc6, 0x7801] @ asc '' access_token''"

text \<open>An ASCII input with a URL that holds a sensitive word, and a sensitive word in mixed case.\<close>

definition example_ascii_text :: pystr where
  "example_ascii_text = asc ''see https://x.io/key PassWord''"

text \<open>
  A Chinese input (the words for password and secret key around a URL that holds a
  sensitive word): no sensitive word directly follows \<^verbatim>\<open>http://\<close> or \<^verbatim>\<open>https://\<close>.
\<close>

definition example_chinese_text :: pystr where
  "example_chinese_text =
     [0x5bc6, 0x7801] @ asc '': https://x.io/key '' @ [0x79d8, 0x94a5]"

text \<open>
  No API key in the environment; the completion endpoint fails with the message
  \<^verbatim>\<open>timeout\<close> for every prompt that contains the letter \<^verbatim>\<open>x\<close> and echoes any other
  prompt; every path can be written.
\<close>

definition example_llm :: "client \<Rightarrow> pystr \<Rightarrow> pystr \<Rightarrow> llm_outcome" where
  "example_llm cl model p = (if 120 \<in> set p then Failed (asc ''timeout'') else Reply p)"

definition example_summarizer_env :: summarizer_env where
  "example_summarizer_env =
     \<lparr>zhipuai_api_key = None, openai_api_key = None, can_mkdir = True,
      chat_completion = example_llm, can_write_summary = (\<lambda>p. True), cwd = asc ''/work''\<rparr>"

text \<open>The same world, in which the output directory cannot be created.\<close>

definition example_summarizer_env_nodir :: summarizer_env where
  "example_summarizer_env_nodir = example_summarizer_env\<lparr>can_mkdir := False\<rparr>"

definition example_summarizer :: summarizer where
  "example_summarizer =
     \<lparr>llm_type = asc ''openai'',
      client = Some (OpenAI (asc ''sk-1'') (asc ''https://api.chatanywhere.tech/v1''))\<rparr>"

definition example_info :: "pystr \<Rightarrow> pystr \<Rightarrow> readme_info" where
  "example_info n c =
     \<lparr>ri_repo_name = n, ri_file_path = path_join (path_join readme_dir n) (asc ''README.md''),
      ri_content = c, ri_metadata = []\<rparr>"

section \<open>Vector index builder (database/create_db.py)\<close>

record document =
  page_content :: pystr
  doc_metadata :: "(pystr \<times> pystr) list"

text \<open>
  One entry of the directory scan \<^verbatim>\<open>docs_path.rglob("*")\<close>: its path, whether it is a
  file, and what the format's loader gives for it (\<open>Inl\<close>: the loader raises).
\<close>

record dir_entry =
  de_path :: pystr
  de_is_file :: bool
  de_load :: "exn + document list"

text \<open>
  What the builder sees of the world. The text splitter and the vector store are
  library code: \<open>splitter_accepts\<close> says whether the splitter's constructor accepts a
  chunk size and a chunk overlap, \<open>split_documents\<close> is its splitting for these sizes,
  \<open>store_accepts\<close> says whether the store embeds and stores a list of documents without
  raising.
\<close>

record builder_env =
  can_mkdir_persist :: bool
  splitter_accepts :: "int \<Rightarrow> int \<Rightarrow> bool"
  split_documents :: "int \<Rightarrow> int \<Rightarrow> document list \<Rightarrow> document list"
  docs_path_exists :: bool
  dir_entries :: "dir_entry list"
  store_accepts :: "document list \<Rightarrow> bool"

record knowledge_base_loader =
  docs_path :: pystr
  persist_path :: pystr
  chunk_size :: int
  chunk_overlap :: int

definition DEFAULT_DB_PATH :: pystr where
  "DEFAULT_DB_PATH = asc ''./knowledge_db''"

definition DEFAULT_PERSIST_PATH :: pystr where
  "DEFAULT_PERSIST_PATH = asc ''./vector_db''"

definition default_chunk_size :: int where
  "default_chunk_size = 500"

definition default_chunk_overlap :: int where
  "default_chunk_overlap = 150"

text \<open>
  The constructor stores its arguments, creates the persistence directory and builds the
  splitter. It compares the two sizes nowhere itself.
\<close>

definition loader_init ::
  "builder_env \<Rightarrow> pystr \<Rightarrow> pystr \<Rightarrow> int \<Rightarrow> int \<Rightarrow> exn + knowledge_base_loader" where
  "loader_init env dpath ppath csize coverlap =
     (if \<not> can_mkdir_persist env then Inl OSError
      else if \<not> splitter_accepts env csize coverlap
      then Inl SplitterError
      else Inr \<lparr>docs_path = dpath, persist_path = ppath,
                chunk_size = csize, chunk_overlap = coverlap\<rparr>)"

text \<open>The loader that \<^verbatim>\<open>main\<close> constructs.\<close>

definition main_loader :: "builder_env \<Rightarrow> exn + knowledge_base_loader" where
  "main_loader env =
     loader_init env (asc ''knowledge_db/readme_summary'') (asc ''vector_db/chroma'') 500 150"

text \<open>
  \<^verbatim>\<open>file_path.suffix.lower()\<close>: the part of the last path component from its last dot,
  when that dot is neither its first nor its last character. Only ASCII letters matter
  for the comparison with the four supported extensions.
\<close>

definition last_component :: "pystr \<Rightarrow> pystr" where
  "last_component p = rev (takeWhile (\<lambda>c. c \<noteq> 47) (rev p))"

definition path_suffix :: "pystr \<Rightarrow> pystr" where
  "path_suffix p =
     (let nm = last_component p;
          ext = rev (takeWhile (\<lambda>c. c \<noteq> 46) (rev nm))
      in if 46 \<in> set nm \<and> ext \<noteq> [] \<and> length ext + 1 < length nm
         then 46 # ext
         else [])"

definition suffix_lower :: "pystr \<Rightarrow> pystr" where
  "suffix_lower p = map ascii_lower (path_suffix p)"

definition unsupported_format_prefix :: pystr where
  "unsupported_format_prefix =
     [0x4e0d, 0x652f, 0x6301, 0x7684, 0x6587, 0x4ef6, 0x683c, 0x5f0f] @ asc '': ''"

definition supported_extensions :: "pystr list" where
  "supported_extensions = [asc ''.pdf'', asc ''.md'', asc ''.txt'', asc ''.json'']"

definition set_source :: "pystr \<Rightarrow> document \<Rightarrow> document" where
  "set_source p d = d\<lparr>doc_metadata := AList.update (asc ''source'') p (doc_metadata d)\<rparr>"

definition load_single_document ::
  "builder_env \<Rightarrow> knowledge_base_loader \<Rightarrow> dir_entry \<Rightarrow> exn + document list" where
  "load_single_document env k e =
     (if suffix_lower (de_path e) \<in> set supported_extensions then
        (case de_load e of
           Inl ex \<Rightarrow> Inl ex
         | Inr documents \<Rightarrow>
             Inr (map (set_source (de_path e))
                    (split_documents env (chunk_size k) (chunk_overlap k) documents)))
      else Inl (ValueError (unsupported_format_prefix @ path_suffix (de_path e))))"

definition load_documents :: "builder_env \<Rightarrow> knowledge_base_loader \<Rightarrow> document list" where
  "load_documents env k =
     (if \<not> docs_path_exists env then []
      else concat (map (\<lambda>e.
             if de_is_file e \<and> suffix_lower (de_path e) \<in> set supported_extensions then
               (case load_single_document env k e of Inl ex \<Rightarrow> [] | Inr docs \<Rightarrow> docs)
             else [])
           (dir_entries env)))"

text \<open>
  The calls that reach the vector store: \<^verbatim>\<open>Chroma.from_documents\<close>, which embeds the
  documents and writes the collection, and \<^verbatim>\<open>persist\<close>.
\<close>

datatype 'e store_call = FromDocuments "document list" 'e pystr pystr | Persist

record collection =
  col_name :: pystr
  col_directory :: pystr
  col_documents :: "document list"

definition no_documents_message :: pystr where
  "no_documents_message = [0x6587, 0x6863, 0xff1a] @ asc ''[]''"

text \<open>
  \<^verbatim>\<open>create_vector_db\<close>: the result or the exception, and the calls made to the vector
  store.
\<close>

definition create_vector_db ::
  "builder_env \<Rightarrow> knowledge_base_loader \<Rightarrow> 'e \<Rightarrow> pystr \<Rightarrow> (exn + collection) \<times> 'e store_call list" where
  "create_vector_db env k embedding_function collection_name =
     (let documents = load_documents env k in
      if documents = [] then (Inl (ValueError no_documents_message), [])
      else if store_accepts env documents then
        (Inr \<lparr>col_name = collection_name, col_directory = persist_path k,
              col_documents = documents\<rparr>,
         [FromDocuments documents embedding_function (persist_path k) collection_name, Persist])
      else
        (Inl EmbeddingError,
         [FromDocuments documents embedding_function (persist_path k) collection_name]))"

subsection \<open>A small world to run the builder in\<close>

text \<open>
  One Markdown file holding one document, and a text-splitter constructor that rejects
  exactly a chunk overlap larger than the chunk size (the check that langchain's
  \<^verbatim>\<open>TextSplitter.__init__\<close> makes); the splitting itself and the store play no part
  in the examples. \<open>example_empty_env\<close> is the same world with an empty directory.
\<close>

definition example_document :: document where
  "example_document = \<lparr>page_content = asc ''hello world'', doc_metadata = []\<rparr>"

definition example_entry :: dir_entry where
  "example_entry =
     \<lparr>de_path = asc ''knowledge_db/a.md'', de_is_file = True, de_load = Inr [example_document]\<rparr>"

definition example_builder_env :: builder_env where
  "example_builder_env =
     \<lparr>can_mkdir_persist = True,
      splitter_accepts = (\<lambda>csize coverlap. \<not> coverlap > csize),
      split_documents = (\<lambda>csize coverlap docs. docs),
      docs_path_exists = True,
      dir_entries = [example_entry],
      store_accepts = (\<lambda>docs. True)\<rparr>"

definition example_empty_env :: builder_env where
  "example_empty_env = example_builder_env\<lparr>dir_entries := []\<rparr>"

definition example_loader :: knowledge_base_loader where
  "example_loader =
     \<lparr>docs_path = DEFAULT_DB_PATH, persist_path = DEFAULT_PERSIST_PATH,
      chunk_size = 500, chunk_overlap = 150\<rparr>"

definition example_equal_loader :: knowledge_base_loader where
  "example_equal_loader =
     \<lparr>docs_path = DEFAULT_DB_PATH, persist_path = DEFAULT_PERSIST_PATH,
      chunk_size = 100, chunk_overlap = 100\<rparr>"

section \<open>Pagination\<close>

lemma get_pages_run:
  assumes "\<forall>i < length ps. api (k + i) = Page (ps ! i) \<and> ps ! i \<noteq> []"
    and "api (k + length ps) = Page [] \<or> api (k + length ps) = RequestFailure"
  shows "get_pages api k acc reqs = Some (acc @ concat ps, reqs @ [k ..< k + length ps + 1])"
  using assms
proof (induction ps arbitrary: k acc reqs)
  case Nil
  then show ?case
    by (subst get_pages.simps) auto
next
  case (Cons p ps)
  from Cons.prems(1) have hd: "api k = Page p" "p \<noteq> []"
    by force+
  have tl: "\<forall>i < length ps. api (Suc k + i) = Page (ps ! i) \<and> ps ! i \<noteq> []"
  proof (intro allI impI)
    fix i assume "i < length ps"
    then have "Suc i < length (p # ps)" by simp
    with Cons.prems(1) have "api (k + Suc i) = Page ((p # ps) ! Suc i) \<and> (p # ps) ! Suc i \<noteq> []"
      by blast
    then show "api (Suc k + i) = Page (ps ! i) \<and> ps ! i \<noteq> []" by simp
  qed
  from Cons.prems(2) have stop: "api (Suc k + length ps) = Page [] \<or> api (Suc k + length ps) = RequestFailure"
    by simp
  have "get_pages api k acc reqs = get_pages api (Suc k) (acc @ p) (reqs @ [k])"
    by (subst get_pages.simps) (simp add: hd)
  also have "\<dots> = Some ((acc @ p) @ concat ps, (reqs @ [k]) @ [Suc k ..< Suc k + length ps + 1])"
    by (rule Cons.IH [OF tl stop])
  also have "(reqs @ [k]) @ [Suc k ..< Suc k + length ps + 1] = reqs @ [k ..< k + length (p # ps) + 1]"
    by (subst (2) upt_rec) simp
  finally show ?case by simp
qed

lemma length_concat_full:
  "\<forall>p \<in> set ps. length p = n \<Longrightarrow> length (concat ps) = length ps * n"
  by (induction ps) auto

text \<open>
  Claim C3. When the repositories endpoint answers \<open>N\<close> non-empty pages (pages 1 to
  \<open>N\<close>) and then either an empty page or a request failure, \<open>get_organization_repos\<close>
  returns: its result is the concatenation of those \<open>N\<close> pages in order, the requests
  issued are exactly those for pages 1 to \<open>N + 1\<close> (none after the empty page or the
  failure), and with \<open>N\<close> full pages the result has \<open>N * per_page\<close> records.
\<close>

theorem get_organization_repos_pages:
  assumes "\<forall>i < length ps. api (Suc i) = Page (ps ! i) \<and> ps ! i \<noteq> []"
    and "api (Suc (length ps)) = Page [] \<or> api (Suc (length ps)) = RequestFailure"
  shows "get_organization_repos api = Some (concat ps, [1 ..< length ps + 2])
       \<and> ((\<forall>p \<in> set ps. length p = per_page) \<longrightarrow> length (concat ps) = length ps * per_page)"
proof -
  from assms(1) have pages: "\<forall>i < length ps. api (1 + i) = Page (ps ! i) \<and> ps ! i \<noteq> []"
    by simp
  from assms(2) have stop: "api (1 + length ps) = Page [] \<or> api (1 + length ps) = RequestFailure"
    by simp
  have "get_pages api 1 [] [] = Some ([] @ concat ps, [] @ [1 ..< 1 + length ps + 1])"
    by (rule get_pages_run [OF pages stop])
  then have "get_organization_repos api = Some (concat ps, [1 ..< length ps + 2])"
    by (simp add: get_organization_repos_def)
  then show ?thesis
    by (simp add: length_concat_full)
qed

theorem get_organization_repos_pages_witness:
  "get_organization_repos example_full_pages
     = Some (replicate 100 (example_repo (asc ''a'')), [1, 2])
   \<and> length (replicate 100 (example_repo (asc ''a''))) = 1 * per_page"
proof -
  let ?ps = "[replicate per_page (example_repo (asc ''a''))]"
  have pages: "\<forall>i < length ?ps. example_full_pages (Suc i) = Page (?ps ! i) \<and> ?ps ! i \<noteq> []"
    by (simp add: example_full_pages_def per_page_def)
  have stop: "example_full_pages (Suc (length ?ps)) = Page []
            \<or> example_full_pages (Suc (length ?ps)) = RequestFailure"
    by (simp add: example_full_pages_def)
  have full: "\<forall>p \<in> set ?ps. length p = per_page"
    by simp
  from get_organization_repos_pages [OF pages stop] full
  have "get_organization_repos example_full_pages = Some (concat ?ps, [1 ..< length ?ps + 2])"
    and "length (concat ?ps) = length ?ps * per_page"
    by blast+
  moreover have "[1 ..< length ?ps + 2] = [1, 2]"
    by (simp add: upt_rec)
  ultimately show ?thesis
    by (simp add: per_page_def)
qed

section \<open>README candidates\<close>

lemma try_readme_file_spec:
  "try_readme_file (b64decode_utf8 env) (contents_api env (contents_url repo_name f)) = Inr (Some c)
     \<longleftrightarrow> spec_candidate_content env repo_name f = Some c"
  by (auto simp: try_readme_file_def spec_candidate_content_def
           split: contents_response.splits json_body.splits option.splits if_splits)

lemma try_readme_file_cases:
  "try_readme_file (b64decode_utf8 env) (contents_api env (contents_url repo_name f))
     = Inr (spec_candidate_content env repo_name f)
   \<or> (spec_candidate_content env repo_name f = None
      \<and> (\<exists>e. try_readme_file (b64decode_utf8 env) (contents_api env (contents_url repo_name f)) = Inl e))"
  by (auto simp: try_readme_file_def spec_candidate_content_def
           split: contents_response.splits json_body.splits option.splits if_splits)

lemma readme_loop_first:
  "fst (readme_loop env repo_name fs requested) = spec_first_content env repo_name fs"
proof (induction fs arbitrary: requested)
  case Nil
  show ?case by simp
next
  case (Cons f fs)
  from try_readme_file_cases [of env repo_name f] show ?case
    by (cases "spec_candidate_content env repo_name f") (auto simp: Let_def Cons.IH)
qed

lemma readme_loop_found:
  "spec_candidate_content env repo_name f = Some c \<Longrightarrow>
   readme_loop env repo_name (f # fs) requested = (Some c, requested @ [contents_url repo_name f])"
  using try_readme_file_spec [of env repo_name f c] by (simp add: Let_def)

lemma readme_loop_none:
  "\<forall>f \<in> set fs. spec_candidate_content env repo_name f = None \<Longrightarrow>
   readme_loop env repo_name fs requested = (None, requested @ map (contents_url repo_name) fs)"
proof (induction fs arbitrary: requested)
  case Nil
  show ?case by simp
next
  case (Cons f fs)
  then have none: "spec_candidate_content env repo_name f = None"
    and rest: "\<forall>g \<in> set fs. spec_candidate_content env repo_name g = None"
    by simp_all
  from try_readme_file_cases [of env repo_name f] none show ?case
    by (auto simp: Let_def Cons.IH [OF rest])
qed

text \<open>
  Claim C1. \<open>get_repo_readme\<close> returns the decoded content of the first of
  \<^verbatim>\<open>README.md\<close>, \<^verbatim>\<open>readme.md\<close>, \<^verbatim>\<open>README.txt\<close>, \<^verbatim>\<open>readme.txt\<close>, \<^verbatim>\<open>README\<close>
  that yields a 200 response with base64 encoding and decodable content. When
  \<^verbatim>\<open>README.md\<close> yields one, its content is returned after that single request,
  whatever \<^verbatim>\<open>readme.md\<close> holds. When no candidate yields one, the result is \<open>None\<close>
  after all five requests; the function has no exceptional result.
\<close>

theorem get_repo_readme_first_candidate:
  "fst (get_repo_readme env repo_name)
     = spec_first_content env repo_name
         [asc ''README.md'', asc ''readme.md'', asc ''README.txt'', asc ''readme.txt'', asc ''README'']
   \<and> (spec_candidate_content env repo_name (asc ''README.md'') = Some c \<longrightarrow>
        get_repo_readme env repo_name = (Some c, [contents_url repo_name (asc ''README.md'')]))
   \<and> ((\<forall>f \<in> set readme_files. spec_candidate_content env repo_name f = None) \<longrightarrow>
        get_repo_readme env repo_name = (None, map (contents_url repo_name) readme_files))"
proof (intro conjI impI)
  show "fst (get_repo_readme env repo_name)
     = spec_first_content env repo_name
         [asc ''README.md'', asc ''readme.md'', asc ''README.txt'', asc ''readme.txt'', asc ''README'']"
    unfolding get_repo_readme_def readme_loop_first by (simp only: readme_files_def)
next
  assume "spec_candidate_content env repo_name (asc ''README.md'') = Some c"
  then show "get_repo_readme env repo_name = (Some c, [contents_url repo_name (asc ''README.md'')])"
    unfolding get_repo_readme_def readme_files_def by (simp only: readme_loop_found append_Nil)
next
  assume "\<forall>f \<in> set readme_files. spec_candidate_content env repo_name f = None"
  then show "get_repo_readme env repo_name = (None, map (contents_url repo_name) readme_files)"
    unfolding get_repo_readme_def by (simp only: readme_loop_none append_Nil)
qed

lemma example_contents_a:
  "spec_candidate_content example_env (asc ''a'') (asc ''README.md'') = Some (asc ''A'')"
  "spec_candidate_content example_env (asc ''a'') (asc ''readme.md'') = Some (asc ''B'')"
  by (simp_all add: spec_candidate_content_def example_env_def example_contents_def
        example_decode_def contents_url_def asc_def)

lemma example_contents_b:
  "\<forall>f \<in> set readme_files. spec_candidate_content example_env (asc ''b'') f = None"
  by (simp add: spec_candidate_content_def example_env_def example_contents_def
        contents_url_def readme_files_def asc_def)

theorem get_repo_readme_first_candidate_witness:
  "spec_candidate_content example_env (asc ''a'') (asc ''README.md'') = Some (asc ''A'')
   \<and> spec_candidate_content example_env (asc ''a'') (asc ''readme.md'') = Some (asc ''B'')
   \<and> get_repo_readme example_env (asc ''a'')
       = (Some (asc ''A''), [contents_url (asc ''a'') (asc ''README.md'')])
   \<and> get_repo_readme example_env (asc ''b'')
       = (None, map (contents_url (asc ''b'')) readme_files)"
  using get_repo_readme_first_candidate [of example_env "asc ''a''" "asc ''A''"]
    get_repo_readme_first_candidate [of example_env "asc ''b''"]
    example_contents_a example_contents_b
  by blast

section \<open>The zero-document precondition\<close>

lemma example_load_documents:
  "load_documents example_builder_env example_loader
     = [example_document\<lparr>doc_metadata := [(asc ''source'', asc ''knowledge_db/a.md'')]\<rparr>]"
  by (simp add: load_documents_def load_single_document_def example_builder_env_def
        example_entry_def example_loader_def suffix_lower_def path_suffix_def last_component_def
        supported_extensions_def set_source_def example_document_def ascii_lower_def
        asc_def Let_def)

lemma example_load_no_documents:
  "load_documents example_empty_env example_loader = []"
  by (simp add: load_documents_def example_empty_env_def example_builder_env_def)

text \<open>
  Claim C4. When the loading step gives no document, \<open>create_vector_db\<close> raises the
  \<^verbatim>\<open>ValueError\<close> and has made no call to the vector store (so no embedding and no
  write). When it gives documents, no \<^verbatim>\<open>ValueError\<close> is raised, the one
  \<^verbatim>\<open>from_documents\<close> call receives exactly those documents, and the collection returned
  by a store that accepts them holds exactly those documents.
\<close>

theorem create_vector_db_precondition:
  "(load_documents env k = [] \<longrightarrow>
      create_vector_db env k emb cname = (Inl (ValueError no_documents_message), []))
   \<and> (load_documents env k \<noteq> [] \<longrightarrow>
        (\<forall>msg. fst (create_vector_db env k emb cname) \<noteq> Inl (ValueError msg))
        \<and> hd (snd (create_vector_db env k emb cname))
            = FromDocuments (load_documents env k) emb (persist_path k) cname
        \<and> (store_accepts env (load_documents env k) \<longrightarrow>
             create_vector_db env k emb cname
               = (Inr \<lparr>col_name = cname, col_directory = persist_path k,
                       col_documents = load_documents env k\<rparr>,
                  [FromDocuments (load_documents env k) emb (persist_path k) cname, Persist])))"
  by (simp add: create_vector_db_def Let_def)

theorem create_vector_db_precondition_witness:
  "create_vector_db example_empty_env example_loader () (asc ''knowledge_db'')
     = (Inl (ValueError no_documents_message), [])
   \<and> fst (create_vector_db example_builder_env example_loader () (asc ''knowledge_db''))
       = Inr \<lparr>col_name = asc ''knowledge_db'', col_directory = DEFAULT_PERSIST_PATH,
              col_documents =
                [example_document\<lparr>doc_metadata := [(asc ''source'', asc ''knowledge_db/a.md'')]\<rparr>]\<rparr>"
proof -
  have accepts: "store_accepts example_builder_env (load_documents example_builder_env example_loader)"
    by (simp add: example_builder_env_def)
  have nonempty: "load_documents example_builder_env example_loader \<noteq> []"
    by (simp add: example_load_documents)
  have path: "persist_path example_loader = DEFAULT_PERSIST_PATH"
    by (simp add: example_loader_def)
  from create_vector_db_precondition
         [of example_empty_env example_loader "()" "asc ''knowledge_db''"]
       example_load_no_documents
  have empty: "create_vector_db example_empty_env example_loader () (asc ''knowledge_db'')
     = (Inl (ValueError no_documents_message), [])"
    by blast
  from create_vector_db_precondition
         [of example_builder_env example_loader "()" "asc ''knowledge_db''"]
       nonempty accepts
  have "create_vector_db example_builder_env example_loader () (asc ''knowledge_db'')
      = (Inr \<lparr>col_name = asc ''knowledge_db'', col_directory = persist_path example_loader,
              col_documents = load_documents example_builder_env example_loader\<rparr>,
         [FromDocuments (load_documents example_builder_env example_loader) ()
            (persist_path example_loader) (asc ''knowledge_db''), Persist])"
    by blast
  with empty show ?thesis
    by (simp add: example_load_documents path)
qed

section \<open>Chunk sizes\<close>

text \<open>
  Claim C9, as stated, fails: the constructor never compares the two sizes, and the
  text splitter's constructor rejects only an overlap that is larger than the chunk
  size, so a loader whose overlap equals its chunk size is constructed.
\<close>

theorem loader_sizes_counterexample:
  "loader_init example_builder_env DEFAULT_DB_PATH DEFAULT_PERSIST_PATH 100 100
     = Inr example_equal_loader
   \<and> \<not> chunk_overlap example_equal_loader < chunk_size example_equal_loader"
  by (simp add: loader_init_def example_builder_env_def example_equal_loader_def)

text \<open>
  Claim C9, amended. A loader that was constructed holds exactly the chunk size and the
  chunk overlap it was given, and the text splitter's constructor accepted them; the
  constructor adds no check of its own. The default sizes and the sizes that \<^verbatim>\<open>main\<close>
  passes (chunk size 500, overlap 150) satisfy overlap < chunk size.
\<close>

theorem loader_sizes:
  "(loader_init env dpath ppath csize coverlap = Inr k \<longrightarrow>
      chunk_size k = csize \<and> chunk_overlap k = coverlap \<and> splitter_accepts env csize coverlap)
   \<and> (main_loader env = Inr k \<longrightarrow> chunk_overlap k < chunk_size k)
   \<and> (loader_init env DEFAULT_DB_PATH DEFAULT_PERSIST_PATH default_chunk_size default_chunk_overlap
         = Inr k \<longrightarrow> chunk_overlap k < chunk_size k)"
  by (auto simp: loader_init_def main_loader_def default_chunk_size_def default_chunk_overlap_def
           split: if_splits)

theorem loader_sizes_witness:
  "loader_init example_builder_env DEFAULT_DB_PATH DEFAULT_PERSIST_PATH
       default_chunk_size default_chunk_overlap = Inr example_loader
   \<and> chunk_size example_loader = default_chunk_size
   \<and> chunk_overlap example_loader = default_chunk_overlap
   \<and> chunk_overlap example_loader < chunk_size example_loader
   \<and> main_loader example_builder_env
       = Inr (example_loader\<lparr>docs_path := asc ''knowledge_db/readme_summary'',
                              persist_path := asc ''vector_db/chroma''\<rparr>)
   \<and> chunk_overlap (example_loader\<lparr>docs_path := asc ''knowledge_db/readme_summary'',
                                    persist_path := asc ''vector_db/chroma''\<rparr>)
       < chunk_size (example_loader\<lparr>docs_path := asc ''knowledge_db/readme_summary'',
                                    persist_path := asc ''vector_db/chroma''\<rparr>)"
proof -
  let ?m = "example_loader\<lparr>docs_path := asc ''knowledge_db/readme_summary'',
                           persist_path := asc ''vector_db/chroma''\<rparr>"
  have init: "loader_init example_builder_env DEFAULT_DB_PATH DEFAULT_PERSIST_PATH
       default_chunk_size default_chunk_overlap = Inr example_loader"
    by (simp add: loader_init_def example_builder_env_def example_loader_def
          default_chunk_size_def default_chunk_overlap_def)
  have main: "main_loader example_builder_env = Inr ?m"
    by (simp add: main_loader_def loader_init_def example_builder_env_def example_loader_def)
  from loader_sizes [of example_builder_env DEFAULT_DB_PATH DEFAULT_PERSIST_PATH
         default_chunk_size default_chunk_overlap example_loader] init
  have a: "chunk_size example_loader = default_chunk_size
     \<and> chunk_overlap example_loader = default_chunk_overlap
     \<and> chunk_overlap example_loader < chunk_size example_loader"
    by blast
  from loader_sizes [of example_builder_env _ _ _ _ ?m] main
  have b: "chunk_overlap ?m < chunk_size ?m"
    by blast
  from init main a b show ?thesis by blast
qed

section \<open>Unsupported language-model types\<close>

text \<open>
  Claim C10, as stated, fails: after \<open>setup_llm\<close> the constructor creates the output
  directory, and where that fails the construction raises, also for an \<^verbatim>\<open>llm_type\<close>
  other than \<^verbatim>\<open>zhipuai\<close> and \<^verbatim>\<open>openai\<close>.
\<close>

theorem unsupported_llm_type_counterexample:
  "summarizer_init example_summarizer_env_nodir (asc ''qwen'') None = Inl OSError"
  by (simp add: summarizer_init_def setup_llm_def example_summarizer_env_nodir_def
        example_summarizer_env_def asc_def)

text \<open>
  Claim C10, amended. For an \<^verbatim>\<open>llm_type\<close> other than \<^verbatim>\<open>zhipuai\<close> and \<^verbatim>\<open>openai\<close>,
  \<open>setup_llm\<close> checks no credential and configures no client, whatever the key argument
  and the environment. When the output directory can be created, the constructor
  returns an instance of that type without a client; the only error it can raise is that
  of the directory creation. Every call of \<open>generate_summary\<close> on such an instance
  raises the \<^verbatim>\<open>ValueError\<close> that names the type.
\<close>

theorem unsupported_llm_type:
  assumes "ltype \<noteq> asc ''zhipuai''" and "ltype \<noteq> asc ''openai''"
  shows "setup_llm env ltype api_key = Inr None
       \<and> (can_mkdir env \<longrightarrow>
            summarizer_init env ltype api_key = Inr \<lparr>llm_type = ltype, client = None\<rparr>)
       \<and> (\<forall>e. summarizer_init env ltype api_key = Inl e \<longrightarrow> e = OSError \<and> \<not> can_mkdir env)
       \<and> (\<forall>s. summarizer_init env ltype api_key = Inr s \<longrightarrow>
            (\<forall>env' cont. generate_summary env' s cont
                           = Inl (ValueError (unsupported_prefix @ ltype))))"
  using assms
  by (auto simp: setup_llm_def summarizer_init_def generate_summary_def split: if_splits)

theorem unsupported_llm_type_witness:
  "summarizer_init example_summarizer_env (asc ''qwen'') None
     = Inr \<lparr>llm_type = asc ''qwen'', client = None\<rparr>
   \<and> generate_summary example_summarizer_env \<lparr>llm_type = asc ''qwen'', client = None\<rparr>
        (asc ''text'')
       = Inl (ValueError (unsupported_prefix @ asc ''qwen''))"
proof -
  have t: "asc ''qwen'' \<noteq> asc ''zhipuai''" "asc ''qwen'' \<noteq> asc ''openai''"
    by (simp_all add: asc_def)
  have d: "can_mkdir example_summarizer_env"
    by (simp add: example_summarizer_env_def)
  from unsupported_llm_type [OF t, of example_summarizer_env None] d
  show ?thesis by blast
qed

section \<open>The loop over the repositories\<close>

lemma save_readme_to_file_eq:
  "save_readme_to_file env repo_name cont w =
     (if can_write env (readme_path repo_name)
      then Inr (readme_path repo_name, w @ [(readme_path repo_name, TextFile cont)])
      else Inl OSError)"
  by (simp add: save_readme_to_file_def readme_path_def Let_def)





lemma collect_item_paths:
  "paths (collect_item env st r n)
     = (if name_collected env n
        then AList.update n (readme_path n) (paths st)
        else paths st)"
  by (auto simp: collect_item_def collect_try_def save_readme_to_file_eq name_collected_def Let_def
           split: prod.splits option.splits sum.splits)

lemma collect_item_written:
  "summaries_written (written (collect_item env st r n)) = summaries_written (written st)"
  by (auto simp: collect_item_def collect_try_def save_readme_to_file_eq summaries_written_def Let_def
           split: prod.splits option.splits sum.splits)

text \<open>A record without a name ends the loop in the state reached before it.\<close>

lemma collect_items_nameless:
  "\<forall>r \<in> set pre. name r \<noteq> None \<Longrightarrow> name x = None \<Longrightarrow>
   collect_items env st (pre @ x # post)
     = (Some (KeyError (asc ''name'')), snd (collect_items env st pre))"
  by (induction pre arbitrary: st) (auto simp: collect_step_def)

text \<open>On records that all carry a name the loop runs to its end.\<close>

lemma collect_items_completes:
  "\<forall>r \<in> set rs. name r \<noteq> None \<Longrightarrow> fst (collect_items env st rs) = None"
  by (induction rs arbitrary: st) (auto simp: collect_step_def)





lemma collect_items_written:
  "summaries_written (written (snd (collect_items env st rs))) = summaries_written (written st)"
  by (induction rs arbitrary: st)
     (auto simp: collect_step_def collect_item_written split: option.splits)

lemma collect_items_keys:
  "\<forall>r \<in> set rs. name r \<noteq> None \<Longrightarrow>
   fst ` set (paths (snd (collect_items env st rs)))
     = fst ` set (paths st) \<union> set (repo_names (filter (repo_collected env) rs))"
proof (induction rs arbitrary: st)
  case Nil
  show ?case by (simp add: repo_names_def)
next
  case (Cons r rs)
  from Cons.prems obtain n where n: "name r = Some n" by auto
  from Cons.prems have rest: "\<forall>r \<in> set rs. name r \<noteq> None" by simp
  let ?st' = "collect_item env st r n"
  let ?new = "if name_collected env n then {n} else {}"
  have "collect_items env st (r # rs) = collect_items env ?st' rs"
    by (simp add: collect_step_def n)
  then have "fst ` set (paths (snd (collect_items env st (r # rs))))
      = fst ` set (paths ?st') \<union> set (repo_names (filter (repo_collected env) rs))"
    using Cons.IH [OF rest] by simp
  moreover have "fst ` set (paths ?st') = fst ` set (paths st) \<union> ?new"
    by (simp add: collect_item_paths dom_update)
  moreover have "set (repo_names (filter (repo_collected env) (r # rs)))
      = ?new \<union> set (repo_names (filter (repo_collected env) rs))"
    by (simp add: repo_names_def repo_collected_def n)
  ultimately show ?case by (simp add: Un_assoc)
qed

lemma collect_items_distinct:
  "distinct (map fst (paths st)) \<Longrightarrow>
   distinct (map fst (paths (snd (collect_items env st rs))))"
  by (induction rs arbitrary: st)
     (auto simp: collect_step_def collect_item_paths distinct_update split: option.splits)

lemma alist_update_subset:
  "set (AList.update k v al) \<subseteq> insert (k, v) (set al)"
  by (induction al) auto

lemma collect_item_values:
  assumes "\<forall>(k, v) \<in> set (paths st). v = readme_path k"
  shows "\<forall>(k, v) \<in> set (paths (collect_item env st r n)). v = readme_path k"
proof (cases "name_collected env n")
  case True
  have "set (AList.update n (readme_path n) (paths st))
          \<subseteq> insert (n, readme_path n) (set (paths st))"
    by (rule alist_update_subset)
  with assms True show ?thesis
    by (auto simp: collect_item_paths)
next
  case False
  with assms show ?thesis
    by (simp add: collect_item_paths)
qed

lemma collect_items_values:
  "\<forall>(k, v) \<in> set (paths st). v = readme_path k \<Longrightarrow>
   \<forall>(k, v) \<in> set (paths (snd (collect_items env st rs))). v = readme_path k"
proof (induction rs arbitrary: st)
  case Nil
  then show ?case by simp
next
  case (Cons r rs)
  show ?case
  proof (cases "name r")
    case None
    with Cons.prems show ?thesis by (simp add: collect_step_def)
  next
    case (Some n)
    from Cons.IH [OF collect_item_values [OF Cons.prems, of env r n]] Some
    show ?thesis by (simp add: collect_step_def)
  qed
qed

section \<open>The loop over the README documents\<close>







lemma process_all_fold:
  "process_all_readmes env s is = foldl (process_step env s) process_init is"
  by (simp add: process_all_readmes_def)

lemma example_first_contents:
  "fst (get_repo_readme example_env_locked (asc ''a'')) = Some (asc ''A'')"
  "fst (get_repo_readme example_env_locked (asc ''b'')) = None"
  "fst (get_repo_readme example_env_locked (asc ''c'')) = Some (asc ''C'')"
  "fst (get_repo_readme example_env (asc ''a'')) = Some (asc ''A'')"
  "fst (get_repo_readme example_env (asc ''b'')) = None"
  "fst (get_repo_readme example_env (asc ''c'')) = Some (asc ''C'')"
  unfolding get_repo_readme_def readme_loop_first
  by (simp_all add: readme_files_def
        spec_candidate_content_def example_env_locked_def example_env_def
        example_contents_def example_decode_def contents_url_def asc_def)


lemma example_outcomes:
  "repo_collected example_env (example_repo (asc ''a''))"
  "\<not> repo_collected example_env (example_repo (asc ''b''))"
  "repo_collected example_env (example_repo (asc ''c''))"
  by (simp_all add: repo_collected_def name_collected_def example_repo_def example_first_contents)
     (simp_all add: example_env_def asc_def)

lemma example_named:
  "\<forall>r \<in> set [example_repo (asc ''a''), example_repo (asc ''b''), example_repo (asc ''c'')].
     name r \<noteq> None"
  by (simp add: example_repo_def)

lemma example_nameless_loop:
  "collect_loop env [example_repo (asc ''a''), example_nameless, example_repo (asc ''c'')]
     = (Some (KeyError (asc ''name'')),
        collect_item env collect_init (example_repo (asc ''a'')) (asc ''a''))"
  by (simp add: collect_loop_def collect_step_def example_repo_def example_nameless_def)




section \<open>The run summary\<close>

text \<open>
  Claim C6, as stated, fails. For the empty list \<open>collect_all_readmes\<close> returns before
  the loop and writes no run summary. For a list with a record without the key
  \<^verbatim>\<open>name\<close> the \<^verbatim>\<open>KeyError\<close> leaves the method before the summary is written.
\<close>

theorem collection_summary_counterexample:
  "collect_all_from example_env [] = (Inr [], collect_init)
   \<and> summaries_written (written collect_init) = []
   \<and> fst (collect_all_from example_env
          [example_repo (asc ''a''), example_nameless, example_repo (asc ''c'')])
       = Inl (KeyError (asc ''name''))
   \<and> summaries_written (written (snd (collect_all_from example_env
          [example_repo (asc ''a''), example_nameless, example_repo (asc ''c'')]))) = []"
  by (simp add: collect_all_from_def example_nameless_loop collect_item_written)
     (simp add: collect_init_def summaries_written_def)

text \<open>
  Claim C6, amended. For every non-empty list of repository records that all carry a
  name, when the summary file can be written, the run writes exactly one run-summary
  document. In it \<open>total_repos\<close> is the number of records, \<open>successful_collections\<close> plus
  \<open>failed_collections\<close> is \<open>total_repos\<close>, and the name-to-path map, which is also the
  value returned, has exactly the names of the repositories whose README was found and
  saved, each once and each with the path of its README file.
\<close>

theorem collection_summary_written:
  assumes "repos \<noteq> []" and "\<forall>r \<in> set repos. name r \<noteq> None"
    and "can_write env summary_path"
  shows "\<exists>sm st. collect_all_from env repos = (Inr (file_paths sm), st)
           \<and> summaries_written (written st) = [sm]
           \<and> total_repos sm = int (length repos)
           \<and> successful_collections sm + failed_collections sm = total_repos sm
           \<and> successful_collections sm = int (length (file_paths sm))
           \<and> collected_repos sm = map fst (file_paths sm)
           \<and> fst ` set (file_paths sm) = set (repo_names (filter (repo_collected env) repos))
           \<and> distinct (map fst (file_paths sm))
           \<and> (\<forall>(k, v) \<in> set (file_paths sm). v = readme_path k)"
proof -
  let ?st = "snd (collect_loop env repos)"
  let ?sm = "\<lparr>collection_time = clock env,
              total_repos = int (length repos),
              successful_collections = int (length (paths ?st)),
              failed_collections = int (length repos) - int (length (paths ?st)),
              collected_repos = map fst (paths ?st),
              file_paths = paths ?st\<rparr>"
  let ?w = "written ?st @ [(summary_path, CollectionSummaryJson ?sm)]"
  have "fst (collect_loop env repos) = None"
    using assms(2) by (simp add: collect_loop_def collect_items_completes)
  then have loop: "collect_loop env repos = (None, ?st)"
    by (simp add: prod_eq_iff)
  have run: "collect_all_from env repos = (Inr (file_paths ?sm), ?st\<lparr>written := ?w\<rparr>)"
    unfolding collect_all_from_def using assms(1,3)
    by (subst loop) (simp add: save_collection_summary_def Let_def)
  have "summaries_written (written ?st) = []"
    by (simp only: collect_loop_def collect_items_written)
       (simp add: collect_init_def summaries_written_def)
  then have one: "summaries_written (written (?st\<lparr>written := ?w\<rparr>)) = [?sm]"
    by (simp add: summaries_written_def)
  have keys: "fst ` set (file_paths ?sm) = set (repo_names (filter (repo_collected env) repos))"
    using assms(2) by (simp add: collect_loop_def collect_items_keys collect_init_def)
  have dist: "distinct (map fst (file_paths ?sm))"
    by (simp add: collect_loop_def collect_items_distinct collect_init_def)
  have "\<forall>(k, v) \<in> set (paths (snd (collect_items env collect_init repos))). v = readme_path k"
    by (rule collect_items_values) (simp add: collect_init_def)
  then have vals: "\<forall>(k, v) \<in> set (file_paths ?sm). v = readme_path k"
    by (simp add: collect_loop_def)
  show ?thesis
    apply (rule exI [of _ ?sm])
    apply (rule exI [of _ "?st\<lparr>written := ?w\<rparr>"])
    using run one keys dist vals
    apply simp
    done
qed

theorem collection_summary_written_witness:
  "\<exists>sm st. collect_all_from example_env
               [example_repo (asc ''a''), example_repo (asc ''b''), example_repo (asc ''c'')]
             = (Inr (file_paths sm), st)
     \<and> summaries_written (written st) = [sm]
     \<and> total_repos sm = 3
     \<and> successful_collections sm + failed_collections sm = 3
     \<and> fst ` set (file_paths sm) = {asc ''a'', asc ''c''}"
proof -
  let ?repos = "[example_repo (asc ''a''), example_repo (asc ''b''), example_repo (asc ''c'')]"
  have ne: "?repos \<noteq> []" by simp
  have cw: "can_write example_env summary_path" by (simp add: example_env_def)
  have "filter (repo_collected example_env) ?repos
          = [example_repo (asc ''a''), example_repo (asc ''c'')]"
    by (simp add: example_outcomes)
  then have names: "set (repo_names (filter (repo_collected example_env) ?repos))
          = {asc ''a'', asc ''c''}"
    by (simp add: repo_names_def example_repo_def)
  from collection_summary_written [OF ne example_named cw] obtain sm st where
    "collect_all_from example_env ?repos = (Inr (file_paths sm), st)"
    "summaries_written (written st) = [sm]"
    "total_repos sm = int (length ?repos)"
    "successful_collections sm + failed_collections sm = total_repos sm"
    "fst ` set (file_paths sm) = set (repo_names (filter (repo_collected example_env) ?repos))"
    by blast
  with names show ?thesis
    by (intro exI [of _ sm] exI [of _ st]) simp
qed

section \<open>A failing language-model call\<close>

lemma generate_summary_failed:
  assumes "llm_type s = asc ''zhipuai'' \<or> llm_type s = asc ''openai''"
    and "client s = Some cl"
    and "chat_completion env cl (backend_model s) (prompt cont) = Failed msg"
  shows "generate_summary env s cont = Inr (failure_prefix @ msg)"
proof (cases "llm_type s = asc ''zhipuai''")
  case True
  with assms(2,3) show ?thesis
    by (simp add: generate_summary_def generate_summary_zhipuai_def backend_model_def)
next
  case False
  with assms(1) have "llm_type s = asc ''openai''" by simp
  with False assms(2,3) show ?thesis
    by (simp add: generate_summary_def generate_summary_openai_def backend_model_def)
qed

lemma process_step_saved_mono:
  "set (ps_saved st) \<subseteq> set (ps_saved (process_step env s st i))"
  by (auto simp: process_step_def process_try_def Let_def split: sum.splits)

lemma process_step_written_mono:
  "set (ps_written st) \<subseteq> set (ps_written (process_step env s st i))"
  by (auto simp: process_step_def process_try_def save_summary_def Let_def split: sum.splits)

lemma process_fold_saved_mono:
  "set (ps_saved st) \<subseteq> set (ps_saved (foldl (process_step env s) st is))"
proof (induction "is" arbitrary: st)
  case Nil
  show ?case by simp
next
  case (Cons i "is")
  from process_step_saved_mono [of st env s i] Cons.IH [of "process_step env s st i"]
  show ?case by auto
qed

lemma process_fold_written_mono:
  "set (ps_written st) \<subseteq> set (ps_written (foldl (process_step env s) st is))"
proof (induction "is" arbitrary: st)
  case Nil
  show ?case by simp
next
  case (Cons i "is")
  from process_step_written_mono [of st env s i] Cons.IH [of "process_step env s st i"]
  show ?case by auto
qed

lemma process_step_saves:
  assumes "generate_summary env s (filter_content (ri_content i)) = Inr y"
  shows "(ri_repo_name i, y) \<in> set (ps_saved (process_step env s st i))"
    and "can_write_summary env (summary_file (ri_repo_name i)) \<Longrightarrow>
         (summary_file (ri_repo_name i),
          SummaryJson \<lparr>sr_repo_name = ri_repo_name i, sr_summary = y,
                       sr_metadata = ri_metadata i, sr_generated_at = cwd env,
                       sr_llm_type = llm_type s\<rparr>)
           \<in> set (ps_written (process_step env s st i))"
  using assms by (simp_all add: process_step_def process_try_def save_summary_def Let_def)

lemma process_fold_saves:
  assumes "generate_summary env s (filter_content (ri_content i)) = Inr y"
    and "i \<in> set is"
  shows "(ri_repo_name i, y) \<in> set (ps_saved (foldl (process_step env s) st is))"
    and "can_write_summary env (summary_file (ri_repo_name i)) \<Longrightarrow>
         (summary_file (ri_repo_name i),
          SummaryJson \<lparr>sr_repo_name = ri_repo_name i, sr_summary = y,
                       sr_metadata = ri_metadata i, sr_generated_at = cwd env,
                       sr_llm_type = llm_type s\<rparr>)
           \<in> set (ps_written (foldl (process_step env s) st is))"
proof -
  from assms(2) obtain pre post where split: "is = pre @ i # post"
    by (auto simp: in_set_conv_decomp)
  let ?st1 = "foldl (process_step env s) st pre"
  have fold: "foldl (process_step env s) st is
                = foldl (process_step env s) (process_step env s ?st1 i) post"
    by (simp add: split)
  from process_step_saves(1) [OF assms(1), of ?st1]
       process_fold_saved_mono [of "process_step env s ?st1 i" env s post]
  show "(ri_repo_name i, y) \<in> set (ps_saved (foldl (process_step env s) st is))"
    unfolding fold by blast
  assume "can_write_summary env (summary_file (ri_repo_name i))"
  from process_step_saves(2) [OF assms(1) this, of ?st1]
       process_fold_written_mono [of "process_step env s ?st1 i" env s post]
  show "(summary_file (ri_repo_name i),
          SummaryJson \<lparr>sr_repo_name = ri_repo_name i, sr_summary = y,
                       sr_metadata = ri_metadata i, sr_generated_at = cwd env,
                       sr_llm_type = llm_type s\<rparr>)
           \<in> set (ps_written (foldl (process_step env s) st is))"
    unfolding fold by blast
qed

text \<open>
  Claim C7. On an instance of one of the two backends, when the language-model call for
  a README document fails with a message, \<open>generate_summary\<close> raises nothing: it
  returns the failure prefix followed by that message. \<open>process_all_readmes\<close> then
  calls \<open>save_summary\<close> for that document with this summary, and the summary record
  holding it is written (when its file can be written).
\<close>

theorem llm_failure_degrades:
  assumes "llm_type s = asc ''zhipuai'' \<or> llm_type s = asc ''openai''"
    and "client s = Some cl"
    and "chat_completion env cl (backend_model s) (prompt (filter_content (ri_content info)))
           = Failed msg"
    and "info \<in> set infos"
  shows "generate_summary env s (filter_content (ri_content info)) = Inr (failure_prefix @ msg)
       \<and> (ri_repo_name info, failure_prefix @ msg)
           \<in> set (ps_saved (process_all_readmes env s infos))
       \<and> (can_write_summary env (summary_file (ri_repo_name info)) \<longrightarrow>
            (summary_file (ri_repo_name info),
             SummaryJson \<lparr>sr_repo_name = ri_repo_name info, sr_summary = failure_prefix @ msg,
                          sr_metadata = ri_metadata info, sr_generated_at = cwd env,
                          sr_llm_type = llm_type s\<rparr>)
              \<in> set (ps_written (process_all_readmes env s infos)))"
proof -
  have gen: "generate_summary env s (filter_content (ri_content info)) = Inr (failure_prefix @ msg)"
    by (rule generate_summary_failed [OF assms(1,2,3)])
  from process_fold_saves [OF gen assms(4), of process_init] gen
  show ?thesis
    by (simp add: process_all_fold)
qed

lemma example_filter_plain:
  "filter_content (asc ''x'') = asc ''x''"
  by (simp add: filter_content_def redact_words_def sensitive_words_def match_url_def
        match_word_def ci_match_def ascii_lower_def asc_def)

theorem llm_failure_degrades_witness:
  "generate_summary example_summarizer_env example_summarizer
       (filter_content (ri_content (example_info (asc ''a'') (asc ''x''))))
     = Inr (failure_prefix @ asc ''timeout'')
   \<and> (summary_file (asc ''a''),
       SummaryJson \<lparr>sr_repo_name = asc ''a'', sr_summary = failure_prefix @ asc ''timeout'',
                    sr_metadata = [], sr_generated_at = asc ''/work'',
                    sr_llm_type = asc ''openai''\<rparr>)
        \<in> set (ps_written (process_all_readmes example_summarizer_env example_summarizer
                 [example_info (asc ''a'') (asc ''x''), example_info (asc ''b'') (asc ''y'')]))"
proof -
  let ?i = "example_info (asc ''a'') (asc ''x'')"
  let ?cl = "OpenAI (asc ''sk-1'') (asc ''https://api.chatanywhere.tech/v1'')"
  have t: "llm_type example_summarizer = asc ''zhipuai'' \<or> llm_type example_summarizer = asc ''openai''"
    by (simp add: example_summarizer_def)
  have c: "client example_summarizer = Some ?cl"
    by (simp add: example_summarizer_def)
  have f: "chat_completion example_summarizer_env ?cl (backend_model example_summarizer)
             (prompt (filter_content (ri_content ?i))) = Failed (asc ''timeout'')"
    by (simp add: example_info_def example_filter_plain)
       (simp add: example_summarizer_env_def example_llm_def prompt_def asc_def)
  have m: "?i \<in> set [?i, example_info (asc ''b'') (asc ''y'')]"
    by simp
  have w: "can_write_summary example_summarizer_env (summary_file (ri_repo_name ?i))"
    by (simp add: example_summarizer_env_def)
  from llm_failure_degrades [OF t c f m] w
  show ?thesis
    by (simp add: example_info_def example_summarizer_env_def example_summarizer_def)
qed

section \<open>Substitution\<close>

lemma re_search_iff:
  "re_search m t \<longleftrightarrow> (\<exists>u c cs. t = u @ c # cs \<and> m (c # cs) \<noteq> None)"
proof (induction t)
  case Nil
  show ?case by simp
next
  case (Cons a t)
  show ?case
  proof
    assume "re_search m (a # t)"
    then consider "m (a # t) \<noteq> None" | "re_search m t" by auto
    then show "\<exists>u c cs. a # t = u @ c # cs \<and> m (c # cs) \<noteq> None"
    proof cases
      case 1
      then have "a # t = [] @ a # t \<and> m (a # t) \<noteq> None" by simp
      then show ?thesis by blast
    next
      case 2
      with Cons.IH obtain u c cs where "t = u @ c # cs" "m (c # cs) \<noteq> None" by blast
      then have "a # t = (a # u) @ c # cs \<and> m (c # cs) \<noteq> None" by simp
      then show ?thesis by blast
    qed
  next
    assume "\<exists>u c cs. a # t = u @ c # cs \<and> m (c # cs) \<noteq> None"
    then obtain u c cs where eq: "a # t = u @ c # cs" and mt: "m (c # cs) \<noteq> None" by blast
    show "re_search m (a # t)"
    proof (cases u)
      case Nil
      with eq mt show ?thesis by simp
    next
      case (Cons b u')
      with eq have "t = u' @ c # cs" by simp
      with mt Cons.IH have "re_search m t" by blast
      then show ?thesis by simp
    qed
  qed
qed

lemma re_search_append:
  "re_search m t \<Longrightarrow> re_search m (u @ t)"
  by (induction u) simp_all

lemma re_search_drop:
  "re_search m (drop k t) \<Longrightarrow> re_search m t"
  using re_search_append [of m "drop k t" "take k t"] by simp

text \<open>Induction along the scan of \<open>re_sub\<close> for a fixed pattern.\<close>

lemma re_sub_scan_induct:
  assumes "P []"
    and "\<And>c cs. (\<And>n. m (c # cs) = Some n \<Longrightarrow> P (drop (n - 1) cs))
           \<Longrightarrow> (m (c # cs) = None \<Longrightarrow> P cs) \<Longrightarrow> P (c # cs)"
  shows "P t"
proof (induction t rule: length_induct)
  case (1 xs)
  show ?case
  proof (cases xs)
    case Nil
    with assms(1) show ?thesis by simp
  next
    case (Cons c cs)
    have "P (drop (n - 1) cs)" for n
      using 1 Cons by simp
    moreover have "P cs"
      using 1 Cons by simp
    ultimately show ?thesis
      unfolding Cons by (intro assms(2))
  qed
qed

lemma re_sub_chars:
  "set (re_sub m repl t) \<subseteq> set t \<union> set repl"
proof (induction m repl t rule: re_sub.induct)
  case (1 m repl)
  show ?case by simp
next
  case (2 m repl c cs)
  show ?case
  proof (cases "m (c # cs)")
    case None
    with 2 show ?thesis by auto
  next
    case (Some n)
    with 2 have "set (re_sub m repl (drop (n - 1) cs)) \<subseteq> set (drop (n - 1) cs) \<union> set repl"
      by simp
    moreover have "set (drop (n - 1) cs) \<subseteq> set cs"
      by (rule set_drop_subset)
    ultimately show ?thesis using Some by auto
  qed
qed

lemma re_sub_no_match:
  "\<not> re_search m t \<Longrightarrow> re_sub m repl t = t"
  by (induction t) auto

text \<open>
  A prefix of the output that does not contain the first character of the replacement
  was copied from the input.
\<close>

lemma re_sub_prefix_copied:
  assumes "repl \<noteq> []" and "hd repl \<notin> set pre"
    and "re_sub m repl t = pre @ rest"
  shows "\<exists>t'. t = pre @ t' \<and> re_sub m repl t' = rest"
  using assms(2,3)
proof (induction pre arbitrary: t)
  case Nil
  then show ?case by simp
next
  case (Cons a pre)
  show ?case
  proof (cases t)
    case Nil
    with Cons.prems show ?thesis by simp
  next
    case (Cons c cs)
    show ?thesis
    proof (cases "m (c # cs)")
      case (Some n)
      with Cons.prems(2) Cons have "repl @ re_sub m repl (drop (n - 1) cs) = a # pre @ rest"
        by simp
      with assms(1) have "hd repl = a" by (cases repl) simp_all
      with Cons.prems(1) show ?thesis by simp
    next
      case None
      with Cons.prems(2) Cons have "c = a" and "re_sub m repl cs = pre @ rest"
        by simp_all
      moreover from Cons.prems(1) have "hd repl \<notin> set pre" by simp
      ultimately obtain t' where "cs = pre @ t'" "re_sub m repl t' = rest"
        using Cons.IH by blast
      with Cons \<open>c = a\<close> show ?thesis by simp
    qed
  qed
qed

text \<open>
  A first character of the output is the first character of the input, unless a match
  begins there.
\<close>

lemma re_sub_head:
  assumes "re_sub m repl t = x # r"
  shows "\<exists>y ys. t = y # ys \<and> (m (y # ys) \<noteq> None \<or> y = x)"
proof (cases t)
  case Nil
  with assms show ?thesis by simp
next
  case (Cons y ys)
  with assms show ?thesis by (cases "m (y # ys)") auto
qed

section \<open>The URL pattern\<close>

lemma url_run_pos:
  "0 < url_run t \<longleftrightarrow> (\<exists>x r. t = x # r \<and> url_char x)"
proof (cases t)
  case Nil
  then show ?thesis by simp
next
  case (Cons c cs)
  have "c = 37 \<Longrightarrow> url_char c"
    by (simp add: url_char_def)
  then show ?thesis using Cons
    by (auto split: option.splits if_splits)
qed

lemma match_url_iff:
  "match_url t \<noteq> None \<longleftrightarrow>
     (\<exists>x r. url_char x \<and> (t = asc ''http://'' @ x # r \<or> t = asc ''https://'' @ x # r))"
proof
  assume "match_url t \<noteq> None"
  then have h: "prefix (asc ''http'') t"
    and c: "prefix (asc ''s://'') (drop 4 t) \<and> 0 < url_run (drop 4 (drop 4 t))
          \<or> prefix (asc ''://'') (drop 4 t) \<and> 0 < url_run (drop 3 (drop 4 t))"
    by (auto simp: match_url_def Let_def split: if_splits)
  from h obtain t1 where t1: "t = asc ''http'' @ t1" by (auto simp: prefix_def)
  then have d: "drop 4 t = t1" by (simp add: asc_def)
  from c show "\<exists>x r. url_char x \<and> (t = asc ''http://'' @ x # r \<or> t = asc ''https://'' @ x # r)"
  proof
    assume "prefix (asc ''s://'') (drop 4 t) \<and> 0 < url_run (drop 4 (drop 4 t))"
    with d obtain t2 where t2: "t1 = asc ''s://'' @ t2" and "0 < url_run (drop 4 t1)"
      by (auto simp: prefix_def)
    then have "0 < url_run t2" by (simp add: asc_def)
    then obtain x r where "t2 = x # r" "url_char x" by (auto simp: url_run_pos)
    with t1 t2 have "t = asc ''https://'' @ x # r \<and> url_char x" by (simp add: asc_def)
    then show ?thesis by blast
  next
    assume "prefix (asc ''://'') (drop 4 t) \<and> 0 < url_run (drop 3 (drop 4 t))"
    with d obtain t2 where t2: "t1 = asc ''://'' @ t2" and "0 < url_run (drop 3 t1)"
      by (auto simp: prefix_def)
    then have "0 < url_run t2" by (simp add: asc_def)
    then obtain x r where "t2 = x # r" "url_char x" by (auto simp: url_run_pos)
    with t1 t2 have "t = asc ''http://'' @ x # r \<and> url_char x" by (simp add: asc_def)
    then show ?thesis by blast
  qed
next
  assume "\<exists>x r. url_char x \<and> (t = asc ''http://'' @ x # r \<or> t = asc ''https://'' @ x # r)"
  then obtain x r where x: "url_char x"
    and t: "t = asc ''http://'' @ x # r \<or> t = asc ''https://'' @ x # r" by blast
  from x have run: "0 < url_run (x # r)" by (auto simp: url_run_pos)
  from t show "match_url t \<noteq> None"
  proof
    assume "t = asc ''http://'' @ x # r"
    with run show ?thesis by (simp add: match_url_def asc_def)
  next
    assume "t = asc ''https://'' @ x # r"
    with run show ?thesis by (simp add: match_url_def asc_def)
  qed
qed

lemma match_url_head:
  assumes "match_url (y # ys) \<noteq> None"
  shows "y = 104"
  using assms [unfolded match_url_iff] by (auto simp: asc_def)

text \<open>
  A URL match at the head of the output of a substitution is a URL match at the head
  of its input, when the replacement begins with none of the characters of
  \<^verbatim>\<open>https://\<close> and every match that is replaced begins with a URL character.
\<close>

lemma match_url_re_sub:
  assumes repl: "repl \<noteq> []" "hd repl \<notin> set (asc ''https://'')"
    and heads: "\<And>y ys. m (y # ys) \<noteq> None \<Longrightarrow> y \<in> set t \<Longrightarrow> url_char y"
    and out: "match_url (re_sub m repl t) \<noteq> None"
  shows "match_url t \<noteq> None"
proof -
  from out [unfolded match_url_iff] obtain x r where x: "url_char x"
    and o: "re_sub m repl t = asc ''http://'' @ x # r \<or> re_sub m repl t = asc ''https://'' @ x # r"
    by blast
  from repl(2) have notin: "hd repl \<notin> set (asc ''http://'')"
    by (simp add: asc_def)
  have copied: "\<exists>y ys. url_char y \<and> t = pre @ y # ys"
    if pre: "hd repl \<notin> set pre" and eq: "re_sub m repl t = pre @ x # r" for pre
  proof -
    from re_sub_prefix_copied [OF repl(1) pre eq]
    obtain t' where t': "t = pre @ t'" "re_sub m repl t' = x # r" by blast
    from re_sub_head [OF t'(2)] obtain y ys where y: "t' = y # ys"
      and alt: "m (y # ys) \<noteq> None \<or> y = x" by blast
    from t'(1) y have "y \<in> set t" by simp
    with alt heads x have "url_char y" by blast
    with t'(1) y show ?thesis by blast
  qed
  from o show ?thesis
  proof
    assume "re_sub m repl t = asc ''http://'' @ x # r"
    from copied [OF notin this] show ?thesis unfolding match_url_iff by blast
  next
    assume "re_sub m repl t = asc ''https://'' @ x # r"
    from copied [OF repl(2) this] show ?thesis unfolding match_url_iff by blast
  qed
qed

lemma re_search_url_skip:
  assumes "104 \<notin> set u" and "re_search match_url (u @ t)"
  shows "re_search match_url t"
  using assms
proof (induction u)
  case Nil
  then show ?case by simp
next
  case (Cons a u)
  from Cons.prems(1) have "a \<noteq> 104" by auto
  with match_url_head [of a "u @ t"] have "match_url (a # u @ t) = None" by blast
  with Cons show ?case by simp
qed

lemma url_token_facts:
  "url_token \<noteq> []" "hd url_token \<notin> set (asc ''https://'')" "104 \<notin> set url_token"
  by (simp_all add: url_token_def asc_def)

lemma redaction_token_facts:
  "redaction_token \<noteq> []" "hd redaction_token \<notin> set (asc ''https://'')"
  "104 \<notin> set redaction_token"
  by (simp_all add: redaction_token_def asc_def)

lemma url_char_h: "url_char 104"
  by (simp add: url_char_def)

text \<open>After the URL step no URL match is left.\<close>

lemma url_step_no_url:
  "\<not> re_search match_url (re_sub match_url url_token t)"
proof (induction t rule: re_sub_scan_induct [where m = match_url])
  case 1
  show ?case by simp
next
  case (2 c cs)
  show ?case
  proof (cases "match_url (c # cs)")
    case None
    have "match_url (re_sub match_url url_token (c # cs)) = None"
    proof (rule ccontr)
      assume out: "match_url (re_sub match_url url_token (c # cs)) \<noteq> None"
      have "url_char y" if "match_url (y # ys) \<noteq> None" for y ys
        using match_url_head [OF that] url_char_h by simp
      with url_token_facts(1,2) have "match_url (c # cs) \<noteq> None"
        using out by (rule match_url_re_sub)
      with None show False by simp
    qed
    with None "2.IH"(2) [OF None] show ?thesis by simp
  next
    case (Some n)
    have "\<not> re_search match_url (url_token @ re_sub match_url url_token (drop (n - 1) cs))"
      using re_search_url_skip [OF url_token_facts(3)] "2.IH"(1) [OF Some] by blast
    with Some show ?thesis by simp
  qed
qed

section \<open>The sensitive words\<close>

text \<open>A word is inert for a replacement that none of its characters can match.\<close>

lemma ci_prefix_re_sub:
  assumes "repl \<noteq> []" and "\<forall>a \<in> set v. \<forall>b \<in> set repl. \<not> ci_match a b"
    and "ci_prefix v (re_sub m repl t)"
  shows "ci_prefix v t"
  using assms(2,3)
proof (induction v arbitrary: t)
  case Nil
  show ?case by simp
next
  case (Cons a v)
  show ?case
  proof (cases t)
    case Nil
    with Cons.prems(2) show ?thesis by simp
  next
    case (Cons c cs)
    show ?thesis
    proof (cases "m (c # cs)")
      case (Some n)
      from assms(1) obtain b bs where b: "repl = b # bs" by (cases repl) auto
      with Cons.prems(2) Cons Some have "ci_match a b" by simp
      with Cons.prems(1) b show ?thesis by simp
    next
      case None
      with Cons.prems(2) Cons have "ci_match a c" "ci_prefix v (re_sub m repl cs)"
        by simp_all
      moreover from Cons.prems(1) have "\<forall>a \<in> set v. \<forall>b \<in> set repl. \<not> ci_match a b"
        by simp
      ultimately show ?thesis using Cons.IH Cons by simp
    qed
  qed
qed

lemma match_word_iff:
  "match_word w t \<noteq> None \<longleftrightarrow> ci_prefix w t"
  by (simp add: match_word_def)

lemma re_search_word_skip:
  assumes "w \<noteq> []" and "\<forall>a \<in> set w. \<forall>b \<in> set u. \<not> ci_match a b"
    and "re_search (match_word w) (u @ t)"
  shows "re_search (match_word w) t"
  using assms(2,3)
proof (induction u)
  case Nil
  then show ?case by simp
next
  case (Cons b u)
  from assms(1) obtain a v where w: "w = a # v" by (cases w) auto
  with Cons.prems(1) have "\<not> ci_match a b" by simp
  with w have "match_word w (b # u @ t) = None" by (simp add: match_word_def)
  with Cons show ?case by simp
qed

text \<open>A substitution whose replacement is inert for a word creates no match of it.\<close>

lemma re_search_word_re_sub:
  assumes "w \<noteq> []" and "repl \<noteq> []" and inert: "\<forall>a \<in> set w. \<forall>b \<in> set repl. \<not> ci_match a b"
  shows "re_search (match_word w) (re_sub m repl t) \<Longrightarrow> re_search (match_word w) t"
proof (induction t rule: re_sub_scan_induct [where m = m])
  case 1
  then show ?case by simp
next
  case (2 c cs)
  show ?case
  proof (cases "m (c # cs)")
    case None
    then have eq: "re_sub m repl (c # cs) = c # re_sub m repl cs" by simp
    from "2.prems" have "match_word w (re_sub m repl (c # cs)) \<noteq> None
        \<or> re_search (match_word w) (re_sub m repl cs)"
      unfolding eq by simp
    then show ?thesis
    proof
      assume "match_word w (re_sub m repl (c # cs)) \<noteq> None"
      then have "ci_prefix w (re_sub m repl (c # cs))"
        unfolding match_word_iff .
      from ci_prefix_re_sub [OF assms(2) inert this] show ?thesis
        by (simp add: match_word_def)
    next
      assume "re_search (match_word w) (re_sub m repl cs)"
      with "2.IH"(2) [OF None] show ?thesis by simp
    qed
  next
    case (Some n)
    with "2.prems" have "re_search (match_word w) (repl @ re_sub m repl (drop (n - 1) cs))"
      by simp
    from re_search_word_skip [OF assms(1) inert this] "2.IH"(1) [OF Some]
    have "re_search (match_word w) (drop (n - 1) cs)" by blast
    then have "re_search (match_word w) cs" by (rule re_search_drop)
    then show ?thesis by simp
  qed
qed

text \<open>The substitution of a word leaves no match of that word.\<close>

lemma word_step_no_word:
  assumes "w \<noteq> []" and "repl \<noteq> []" and inert: "\<forall>a \<in> set w. \<forall>b \<in> set repl. \<not> ci_match a b"
  shows "\<not> re_search (match_word w) (re_sub (match_word w) repl t)"
proof (induction t rule: re_sub_scan_induct [where m = "match_word w"])
  case 1
  show ?case by simp
next
  case (2 c cs)
  show ?case
  proof (cases "match_word w (c # cs)")
    case None
    then have eq: "re_sub (match_word w) repl (c # cs) = c # re_sub (match_word w) repl cs"
      by simp
    from None have "\<not> ci_prefix w (c # cs)"
      by (simp add: match_word_def split: if_splits)
    with ci_prefix_re_sub [OF assms(2) inert, of "match_word w" "c # cs"]
    have "\<not> ci_prefix w (re_sub (match_word w) repl (c # cs))"
      by blast
    then have "match_word w (c # re_sub (match_word w) repl cs) = None"
      unfolding eq by (simp add: match_word_def)
    with "2.IH"(2) [OF None] show ?thesis
      unfolding eq by simp
  next
    case (Some n)
    have "\<not> re_search (match_word w) (repl @ re_sub (match_word w) repl (drop (n - 1) cs))"
      using re_search_word_skip [OF assms(1) inert] "2.IH"(1) [OF Some] by blast
    with Some show ?thesis by simp
  qed
qed

lemma sensitive_words_inert:
  "\<forall>w \<in> set sensitive_words. w \<noteq> [] \<and> (\<forall>a \<in> set w. \<forall>b \<in> set redaction_token. \<not> ci_match a b)"
  by (simp add: sensitive_words_def redaction_token_def ci_match_def ascii_lower_def asc_def)

lemma words_fold_no_word:
  assumes "\<forall>w \<in> set ws. w \<noteq> [] \<and> (\<forall>a \<in> set w. \<forall>b \<in> set redaction_token. \<not> ci_match a b)"
  shows "\<forall>w \<in> set ws. \<not> re_search (match_word w) (redact_words ws t)"
  using assms
proof (induction ws rule: rev_induct)
  case Nil
  show ?case by simp
next
  case (snoc x ws)
  let ?s = "redact_words ws t"
  have step: "redact_words (ws @ [x]) t = re_sub (match_word x) redaction_token ?s"
    by (simp add: redact_words_def)
  show ?case
  proof
    fix w assume "w \<in> set (ws @ [x])"
    then consider "w = x" | "w \<in> set ws" by auto
    then show "\<not> re_search (match_word w) (redact_words (ws @ [x]) t)"
    proof cases
      case 1
      with snoc.prems show ?thesis
        unfolding step by (simp add: word_step_no_word redaction_token_facts(1))
    next
      case 2
      with snoc have "\<not> re_search (match_word w) ?s" by simp
      moreover from 2 snoc.prems
      have "w \<noteq> []" "\<forall>a \<in> set w. \<forall>b \<in> set redaction_token. \<not> ci_match a b" by simp_all
      ultimately show ?thesis
        unfolding step using re_search_word_re_sub [OF _ redaction_token_facts(1)] by blast
    qed
  qed
qed
section \<open>The redaction token\<close>

lemma re_search_token_head:
  "re_search match_token (redaction_token @ r)"
proof -
  obtain b bs where tok: "redaction_token = b # bs"
    using redaction_token_facts(1) by (cases redaction_token) auto
  have "match_token (redaction_token @ r) \<noteq> None"
    by (simp add: match_token_def)
  then show ?thesis
    unfolding tok by simp
qed

text \<open>A substitution that replaces at least one match puts the token into its output.\<close>

lemma re_sub_gives_token:
  "re_search m t \<Longrightarrow> re_search match_token (re_sub m redaction_token t)"
proof (induction t rule: re_sub_scan_induct [where m = m])
  case 1
  then show ?case by simp
next
  case (2 c cs)
  show ?case
  proof (cases "m (c # cs)")
    case None
    with "2.prems" have "re_search m cs" by simp
    with "2.IH"(2) [OF None] None show ?thesis by simp
  next
    case (Some n)
    then show ?thesis by (simp add: re_search_token_head)
  qed
qed

lemma re_sub_keeps_token:
  assumes "re_search match_token t"
  shows "re_search match_token (re_sub m redaction_token t)"
proof (cases "re_search m t")
  case True
  then show ?thesis by (rule re_sub_gives_token)
next
  case False
  with assms show ?thesis by (simp add: re_sub_no_match)
qed

lemma words_fold_token:
  "re_search match_token t \<or> (\<exists>w \<in> set ws. re_search (match_word w) t) \<Longrightarrow>
   re_search match_token (redact_words ws t)"
proof (induction ws arbitrary: t)
  case Nil
  then show ?case by (simp add: redact_words_def)
next
  case (Cons x ws)
  let ?t' = "re_sub (match_word x) redaction_token t"
  have step: "redact_words (x # ws) t = redact_words ws ?t'"
    by (simp add: redact_words_def)
  have "re_search match_token ?t' \<or> (\<exists>w \<in> set ws. re_search (match_word w) ?t')"
  proof (cases "re_search (match_word x) t")
    case True
    then show ?thesis by (simp add: re_sub_gives_token)
  next
    case False
    then have "?t' = t" by (rule re_sub_no_match)
    with Cons.prems False show ?thesis
      using re_sub_keeps_token [of t "match_word x"] by auto
  qed
  with Cons.IH show ?case unfolding step by blast
qed

section \<open>Exposed places\<close>

lemma unsafe_word_iff:
  "unsafe_word t \<longleftrightarrow>
     (\<exists>y ys w. t = y # ys \<and> \<not> url_char y \<and> w \<in> set sensitive_words \<and> ci_prefix w (y # ys))"
  by (cases t) (auto simp: unsafe_word_def list_ex_iff)

lemma match_exposed_iff:
  "match_exposed t \<noteq> None \<longleftrightarrow>
     (\<exists>r. unsafe_word r \<and> (t = asc ''http://'' @ r \<or> t = asc ''https://'' @ r))"
proof
  assume "match_exposed t \<noteq> None"
  then consider "prefix (asc ''http://'') t" "unsafe_word (drop 7 t)"
    | "prefix (asc ''https://'') t" "unsafe_word (drop 8 t)"
    by (auto simp: match_exposed_def split: if_splits)
  then show "\<exists>r. unsafe_word r \<and> (t = asc ''http://'' @ r \<or> t = asc ''https://'' @ r)"
  proof cases
    case 1
    from 1(1) obtain r where r: "t = asc ''http://'' @ r" by (auto simp: prefix_def)
    then have "drop 7 t = r" by (simp add: asc_def)
    with 1(2) have "unsafe_word r" by simp
    with r show ?thesis by blast
  next
    case 2
    from 2(1) obtain r where r: "t = asc ''https://'' @ r" by (auto simp: prefix_def)
    then have "drop 8 t = r" by (simp add: asc_def)
    with 2(2) have "unsafe_word r" by simp
    with r show ?thesis by blast
  qed
next
  assume "\<exists>r. unsafe_word r \<and> (t = asc ''http://'' @ r \<or> t = asc ''https://'' @ r)"
  then obtain r where u: "unsafe_word r"
    and t: "t = asc ''http://'' @ r \<or> t = asc ''https://'' @ r" by blast
  from t show "match_exposed t \<noteq> None"
  proof
    assume "t = asc ''http://'' @ r"
    with u show ?thesis by (simp add: match_exposed_def asc_def)
  next
    assume "t = asc ''https://'' @ r"
    with u show ?thesis by (simp add: match_exposed_def asc_def)
  qed
qed

lemma match_exposed_head:
  assumes "match_exposed (y # ys) \<noteq> None"
  shows "y = 104"
  using assms [unfolded match_exposed_iff] by (auto simp: asc_def)

lemma re_search_exposed_skip:
  assumes "104 \<notin> set u" and "re_search match_exposed (u @ t)"
  shows "re_search match_exposed t"
  using assms
proof (induction u)
  case Nil
  then show ?case by simp
next
  case (Cons a u)
  from Cons.prems(1) have "a \<noteq> 104" by auto
  with match_exposed_head [of a "u @ t"] have "match_exposed (a # u @ t) = None" by blast
  with Cons show ?case by simp
qed

lemma ci_prefix_re_sub_head:
  assumes "repl \<noteq> []" and "\<forall>a \<in> set v. \<not> ci_match a (hd repl)"
    and "ci_prefix v (re_sub m repl t)"
  shows "ci_prefix v t"
  using assms(2,3)
proof (induction v arbitrary: t)
  case Nil
  show ?case by simp
next
  case (Cons a v)
  show ?case
  proof (cases t)
    case Nil
    with Cons.prems(2) show ?thesis by simp
  next
    case (Cons c cs)
    show ?thesis
    proof (cases "m (c # cs)")
      case (Some n)
      from assms(1) obtain b bs where b: "repl = b # bs" by (cases repl) auto
      with Cons.prems(2) Cons Some have "ci_match a b" by simp
      with Cons.prems(1) b show ?thesis by simp
    next
      case None
      with Cons.prems(2) Cons have "ci_match a c" "ci_prefix v (re_sub m repl cs)"
        by simp_all
      moreover from Cons.prems(1) have "\<forall>a \<in> set v. \<not> ci_match a (hd repl)"
        by simp
      ultimately show ?thesis using Cons.IH Cons by simp
    qed
  qed
qed

lemma sensitive_words_no_bracket:
  "\<forall>w \<in> set sensitive_words. \<forall>a \<in> set w. \<not> ci_match a 91"
  by (simp add: sensitive_words_def ci_match_def ascii_lower_def asc_def)

lemma url_char_bracket: "url_char 91"
  by (simp add: url_char_def)

text \<open>
  Both replacements begin with a bracket. An unsafe word at the head of the output of
  such a substitution stood at the head of its input.
\<close>

lemma unsafe_word_re_sub:
  assumes repl: "repl \<noteq> []" "hd repl = 91"
    and out: "unsafe_word (re_sub m repl t)"
  shows "unsafe_word t"
proof -
  from out [unfolded unsafe_word_iff] obtain y ys w where o: "re_sub m repl t = y # ys"
    and y: "\<not> url_char y" and w: "w \<in> set sensitive_words" and p: "ci_prefix w (y # ys)"
    by blast
  from re_sub_head [OF o] obtain y' ys' where t: "t = y' # ys'"
    and alt: "m (y' # ys') \<noteq> None \<or> y' = y" by blast
  have "m (y' # ys') = None"
  proof (rule ccontr)
    assume "m (y' # ys') \<noteq> None"
    then obtain n where "m (y' # ys') = Some n" by blast
    with o t have "repl @ re_sub m repl (drop (n - 1) ys') = y # ys" by simp
    with repl have "y = 91" by (cases repl) simp_all
    with y url_char_bracket show False by simp
  qed
  with alt have same: "y' = y" by simp
  from w sensitive_words_no_bracket repl(2)
  have "\<forall>a \<in> set w. \<not> ci_match a (hd repl)" by simp
  from ci_prefix_re_sub_head [OF repl(1) this] p o have "ci_prefix w t" by metis
  with t same y w show ?thesis
    unfolding unsafe_word_iff by blast
qed

lemma match_exposed_re_sub:
  assumes repl: "repl \<noteq> []" "hd repl = 91"
    and out: "match_exposed (re_sub m repl t) \<noteq> None"
  shows "match_exposed t \<noteq> None"
proof -
  from out [unfolded match_exposed_iff] obtain r where u: "unsafe_word r"
    and o: "re_sub m repl t = asc ''http://'' @ r \<or> re_sub m repl t = asc ''https://'' @ r"
    by blast
  from repl(2) have n1: "hd repl \<notin> set (asc ''http://'')" and n2: "hd repl \<notin> set (asc ''https://'')"
    by (simp_all add: asc_def)
  have copied: "\<exists>t'. t = pre @ t' \<and> unsafe_word t'"
    if pre: "hd repl \<notin> set pre" and eq: "re_sub m repl t = pre @ r" for pre
  proof -
    from re_sub_prefix_copied [OF repl(1) pre eq]
    obtain t' where t': "t = pre @ t'" "re_sub m repl t' = r" by blast
    from u t'(2) have "unsafe_word (re_sub m repl t')" by simp
    from unsafe_word_re_sub [OF repl this] t'(1) show ?thesis by blast
  qed
  from o show ?thesis
  proof
    assume "re_sub m repl t = asc ''http://'' @ r"
    from copied [OF n1 this] show ?thesis unfolding match_exposed_iff by blast
  next
    assume "re_sub m repl t = asc ''https://'' @ r"
    from copied [OF n2 this] show ?thesis unfolding match_exposed_iff by blast
  qed
qed

text \<open>Such a substitution creates no exposed place.\<close>

lemma re_search_exposed_re_sub:
  assumes repl: "repl \<noteq> []" "hd repl = 91" "104 \<notin> set repl"
  shows "re_search match_exposed (re_sub m repl t) \<Longrightarrow> re_search match_exposed t"
proof (induction t rule: re_sub_scan_induct [where m = m])
  case 1
  then show ?case by simp
next
  case (2 c cs)
  show ?case
  proof (cases "m (c # cs)")
    case None
    then have eq: "re_sub m repl (c # cs) = c # re_sub m repl cs" by simp
    from "2.prems" have "match_exposed (re_sub m repl (c # cs)) \<noteq> None
        \<or> re_search match_exposed (re_sub m repl cs)"
      unfolding eq by simp
    then show ?thesis
    proof
      assume "match_exposed (re_sub m repl (c # cs)) \<noteq> None"
      from match_exposed_re_sub [OF repl(1,2) this] show ?thesis by simp
    next
      assume "re_search match_exposed (re_sub m repl cs)"
      with "2.IH"(2) [OF None] show ?thesis by simp
    qed
  next
    case (Some n)
    with "2.prems" have "re_search match_exposed (repl @ re_sub m repl (drop (n - 1) cs))"
      by simp
    with repl(3) have "re_search match_exposed (re_sub m repl (drop (n - 1) cs))"
      by (rule re_search_exposed_skip)
    with "2.IH"(1) [OF Some] have "re_search match_exposed (drop (n - 1) cs)" by blast
    then have "re_search match_exposed cs" by (rule re_search_drop)
    then show ?thesis by simp
  qed
qed

text \<open>
  Where no place is exposed, a match of a sensitive word directly behind \<^verbatim>\<open>http://\<close> or
  \<^verbatim>\<open>https://\<close> begins with a URL character, so its replacement creates no URL match.
\<close>

lemma match_url_word_step:
  assumes w: "w \<in> set sensitive_words"
    and safe: "match_exposed t = None"
    and out: "match_url (re_sub (match_word w) redaction_token t) \<noteq> None"
  shows "match_url t \<noteq> None"
proof -
  let ?m = "match_word w"
  from out [unfolded match_url_iff] obtain x r where x: "url_char x"
    and o: "re_sub ?m redaction_token t = asc ''http://'' @ x # r
          \<or> re_sub ?m redaction_token t = asc ''https://'' @ x # r"
    by blast
  from redaction_token_facts(2) have notin: "hd redaction_token \<notin> set (asc ''http://'')"
    by (simp add: asc_def)
  have copied: "\<exists>y ys. url_char y \<and> t = pre @ y # ys"
    if pre: "hd redaction_token \<notin> set pre"
      and eq: "re_sub ?m redaction_token t = pre @ x # r"
      and scheme: "pre = asc ''http://'' \<or> pre = asc ''https://''" for pre
  proof -
    from re_sub_prefix_copied [OF redaction_token_facts(1) pre eq]
    obtain t' where t': "t = pre @ t'" "re_sub ?m redaction_token t' = x # r" by blast
    from re_sub_head [OF t'(2)] obtain y ys where y: "t' = y # ys"
      and alt: "?m (y # ys) \<noteq> None \<or> y = x" by blast
    have "url_char y"
    proof (rule ccontr)
      assume bad: "\<not> url_char y"
      with alt x have "?m (y # ys) \<noteq> None" by blast
      then have "ci_prefix w (y # ys)" by (simp add: match_word_def split: if_splits)
      with bad w have "unsafe_word (y # ys)" unfolding unsafe_word_iff by blast
      with t'(1) y scheme have "match_exposed t \<noteq> None"
        unfolding match_exposed_iff by blast
      with safe show False by simp
    qed
    with t'(1) y show ?thesis by blast
  qed
  from o show ?thesis
  proof
    assume "re_sub ?m redaction_token t = asc ''http://'' @ x # r"
    from copied [OF notin this] show ?thesis unfolding match_url_iff by blast
  next
    assume "re_sub ?m redaction_token t = asc ''https://'' @ x # r"
    from copied [OF redaction_token_facts(2) this] show ?thesis unfolding match_url_iff by blast
  qed
qed

lemma re_search_url_word_step:
  assumes w: "w \<in> set sensitive_words"
  shows "\<not> re_search match_exposed t \<Longrightarrow>
         re_search match_url (re_sub (match_word w) redaction_token t) \<Longrightarrow>
         re_search match_url t"
proof (induction t rule: re_sub_scan_induct [where m = "match_word w"])
  case 1
  then show ?case by simp
next
  case (2 c cs)
  from "2.prems"(1) have here: "match_exposed (c # cs) = None"
    and later: "\<not> re_search match_exposed cs" by simp_all
  show ?case
  proof (cases "match_word w (c # cs)")
    case None
    then have eq: "re_sub (match_word w) redaction_token (c # cs)
        = c # re_sub (match_word w) redaction_token cs" by simp
    from "2.prems"(2) have "match_url (re_sub (match_word w) redaction_token (c # cs)) \<noteq> None
        \<or> re_search match_url (re_sub (match_word w) redaction_token cs)"
      unfolding eq by simp
    then show ?thesis
    proof
      assume "match_url (re_sub (match_word w) redaction_token (c # cs)) \<noteq> None"
      from match_url_word_step [OF w here this] show ?thesis by simp
    next
      assume "re_search match_url (re_sub (match_word w) redaction_token cs)"
      with "2.IH"(2) [OF None later] show ?thesis by simp
    qed
  next
    case (Some n)
    with "2.prems"(2)
    have "re_search match_url
            (redaction_token @ re_sub (match_word w) redaction_token (drop (n - 1) cs))"
      by simp
    with redaction_token_facts(3)
    have out: "re_search match_url (re_sub (match_word w) redaction_token (drop (n - 1) cs))"
      by (rule re_search_url_skip)
    have "\<not> re_search match_exposed (drop (n - 1) cs)"
      using later re_search_drop [of match_exposed "n - 1" cs] by blast
    from "2.IH"(1) [OF Some this out] have "re_search match_url (drop (n - 1) cs)" .
    then have "re_search match_url cs" by (rule re_search_drop)
    then show ?thesis by simp
  qed
qed

lemma redaction_token_bracket: "hd redaction_token = 91"
  by (simp add: redaction_token_def asc_def)

lemma url_token_bracket: "hd url_token = 91"
  by (simp add: url_token_def asc_def)

lemma words_fold_unexposed:
  assumes "set ws \<subseteq> set sensitive_words"
    and "\<not> re_search match_exposed t" and "\<not> re_search match_url t"
  shows "\<not> re_search match_url (redact_words ws t)
       \<and> \<not> re_search match_exposed (redact_words ws t)"
  using assms(1)
proof (induction ws rule: rev_induct)
  case Nil
  from assms(2,3) show ?case by (simp add: redact_words_def)
next
  case (snoc x ws)
  let ?s = "redact_words ws t"
  have step: "redact_words (ws @ [x]) t = re_sub (match_word x) redaction_token ?s"
    by (simp add: redact_words_def)
  from snoc have url: "\<not> re_search match_url ?s" and ex: "\<not> re_search match_exposed ?s"
    and x: "x \<in> set sensitive_words"
    by auto
  have "\<not> re_search match_url (re_sub (match_word x) redaction_token ?s)"
    using re_search_url_word_step [OF x ex] url by blast
  moreover have "\<not> re_search match_exposed (re_sub (match_word x) redaction_token ?s)"
    using re_search_exposed_re_sub
            [OF redaction_token_facts(1) redaction_token_bracket redaction_token_facts(3)] ex
    by blast
  ultimately show ?case
    unfolding step by simp
qed

text \<open>An input without exposed place gives an output without URL match.\<close>

lemma filter_content_unexposed:
  assumes "\<not> re_search match_exposed content"
  shows "\<not> re_search match_url (filter_content content)"
proof -
  let ?u = "re_sub match_url url_token content"
  have "\<not> re_search match_exposed ?u"
    using re_search_exposed_re_sub [OF url_token_facts(1) url_token_bracket url_token_facts(3)]
      assms by blast
  from words_fold_unexposed [OF subset_refl this url_step_no_url]
  show ?thesis by (simp add: filter_content_def)
qed

text \<open>
  An unsafe word begins with one of six characters: the first characters of the four
  Chinese words, and the two non-ASCII characters that match \<^verbatim>\<open>s\<close> and \<^verbatim>\<open>k\<close>.
\<close>

lemma unsafe_heads:
  "\<forall>w \<in> set sensitive_words. \<forall>a v. w = a # v \<longrightarrow> ci_match a y \<longrightarrow>
     url_char y \<or> y \<in> {0x5bc6, 0x79c1, 0x8bbf, 0x79d8, 0x17f, 0x212a}"
  by (auto simp: sensitive_words_def ci_match_def ascii_lower_def url_char_def asc_def
           split: if_splits)

lemma unsafe_word_char:
  assumes "unsafe_word t"
  shows "\<exists>y \<in> set t. y \<in> {0x5bc6, 0x79c1, 0x8bbf, 0x79d8, 0x17f, 0x212a}"
proof -
  from assms [unfolded unsafe_word_iff] obtain y ys w where t: "t = y # ys"
    and y: "\<not> url_char y" and w: "w \<in> set sensitive_words" and p: "ci_prefix w (y # ys)"
    by blast
  from w sensitive_words_inert have "w \<noteq> []" by blast
  then obtain a v where wv: "w = a # v" by (cases w) auto
  with p have "ci_match a y" by simp
  with unsafe_heads w wv y have "y \<in> {0x5bc6, 0x79c1, 0x8bbf, 0x79d8, 0x17f, 0x212a}"
    by blast
  with t show ?thesis by simp
qed

lemma exposed_char:
  assumes "re_search match_exposed t"
  shows "\<exists>y \<in> set t. y \<in> {0x5bc6, 0x79c1, 0x8bbf, 0x79d8, 0x17f, 0x212a}"
proof -
  from assms [unfolded re_search_iff] obtain u c cs where t: "t = u @ c # cs"
    and m: "match_exposed (c # cs) \<noteq> None" by blast
  from m [unfolded match_exposed_iff] obtain r where "unsafe_word r"
    and "c # cs = asc ''http://'' @ r \<or> c # cs = asc ''https://'' @ r" by blast
  with unsafe_word_char [of r] have "\<exists>y \<in> set (c # cs). y \<in> {0x5bc6, 0x79c1, 0x8bbf, 0x79d8, 0x17f, 0x212a}"
    by (metis Un_iff set_append)
  with t show ?thesis by auto
qed

section \<open>filter_content\<close>

text \<open>
  Claim C2, as stated, fails. In \<open>example_text\<close> the first sensitive word of the list
  directly follows \<^verbatim>\<open>http://\<close>: the URL pattern does not match there, and the
  redaction token that replaces the word begins with a bracket, which the pattern's
  character class accepts, so the output contains a match of the URL pattern. The text
  after the URL step has three occurrences of sensitive words (\<^verbatim>\<open>token\<close> lies inside
  \<^verbatim>\<open>access_token\<close>) and the output has two redaction tokens.
\<close>

theorem filter_content_counterexample:
  "re_search match_url example_text
   \<and> re_search match_url (filter_content example_text)
   \<and> count_sensitive (re_sub match_url url_token example_text) = 3
   \<and> count_matches match_token (filter_content example_text) = 2"
proof -
  have url_step: "re_sub match_url url_token example_text
      = asc ''[URL] http://'' @ [0x5bc6, 0x7801] @ asc '' access_token''"
    by (simp add: example_text_def match_url_def url_token_def url_char_def asc_def)
  have out: "filter_content example_text
      = asc ''[URL] http://'' @ redaction_token @ asc '' access_'' @ redaction_token"
    by (simp add: filter_content_def redact_words_def url_step sensitive_words_def
          match_word_def ci_match_def ascii_lower_def redaction_token_def asc_def)
  have "re_search match_url example_text"
    by (simp add: example_text_def match_url_def url_char_def asc_def)
  moreover have "re_search match_url (filter_content example_text)"
    by (simp add: out match_url_def url_char_def redaction_token_def asc_def)
  moreover have "count_sensitive (re_sub match_url url_token example_text) = 3"
    by (simp add: url_step count_sensitive_def sensitive_words_def match_word_def
          ci_match_def ascii_lower_def asc_def)
  moreover have "count_matches match_token (filter_content example_text) = 2"
    by (simp add: out match_token_def redaction_token_def asc_def)
  ultimately show ?thesis by blast
qed

text \<open>
  Claim C2, amended. \<open>filter_content\<close> first replaces every match of the URL pattern by
  the placeholder and then, word by word in list order, every case-insensitive match of
  a sensitive word by the redaction token. The text after the URL step contains no match
  of the URL pattern. The output contains none either, for every input in which no
  \<^verbatim>\<open>http://\<close> or \<^verbatim>\<open>https://\<close> is directly followed by a sensitive word that begins
  with a character outside the pattern's character class; in particular for every input
  without the six characters that can begin such a word, and for every ASCII input. The
  output contains no sensitive word in any case, and it contains the redaction token
  whenever the text after the URL step contains a sensitive word.
\<close>

theorem filter_content_redacts:
  "filter_content content = redact_words sensitive_words (re_sub match_url url_token content)
   \<and> \<not> re_search match_url (re_sub match_url url_token content)
   \<and> (\<not> re_search match_exposed content \<longrightarrow> \<not> re_search match_url (filter_content content))
   \<and> ((\<forall>c \<in> set content. c \<notin> {0x5bc6, 0x79c1, 0x8bbf, 0x79d8, 0x17f, 0x212a}) \<longrightarrow>
        \<not> re_search match_url (filter_content content))
   \<and> ((\<forall>c \<in> set content. c < 128) \<longrightarrow> \<not> re_search match_url (filter_content content))
   \<and> (\<forall>w \<in> set sensitive_words. \<not> re_search (match_word w) (filter_content content))
   \<and> ((\<exists>w \<in> set sensitive_words.
          re_search (match_word w) (re_sub match_url url_token content)) \<longrightarrow>
        re_search match_token (filter_content content))"
proof (intro conjI impI)
  let ?u = "re_sub match_url url_token content"
  show "filter_content content = redact_words sensitive_words ?u"
    by (simp add: filter_content_def)
  show "\<not> re_search match_url ?u"
    by (rule url_step_no_url)
  show "\<not> re_search match_url (filter_content content)"
    if "\<not> re_search match_exposed content"
    using that by (rule filter_content_unexposed)
  show "\<not> re_search match_url (filter_content content)"
    if "\<forall>c \<in> set content. c \<notin> {0x5bc6, 0x79c1, 0x8bbf, 0x79d8, 0x17f, 0x212a}"
  proof -
    from that exposed_char [of content] have "\<not> re_search match_exposed content"
      by blast
    then show ?thesis by (rule filter_content_unexposed)
  qed
  show "\<not> re_search match_url (filter_content content)" if ascii: "\<forall>c \<in> set content. c < 128"
  proof -
    have "\<not> re_search match_exposed content"
    proof
      assume "re_search match_exposed content"
      from exposed_char [OF this] obtain y where "y \<in> set content"
        and "y \<in> {0x5bc6, 0x79c1, 0x8bbf, 0x79d8, 0x17f, 0x212a}" by blast
      with ascii show False by auto
    qed
    then show ?thesis by (rule filter_content_unexposed)
  qed
  show "\<forall>w \<in> set sensitive_words. \<not> re_search (match_word w) (filter_content content)"
    unfolding filter_content_def by (rule words_fold_no_word [OF sensitive_words_inert])
  show "re_search match_token (filter_content content)"
    if "\<exists>w \<in> set sensitive_words. re_search (match_word w) ?u"
    unfolding filter_content_def using that by (simp add: words_fold_token)
qed

theorem filter_content_redacts_witness:
  "re_search match_url example_chinese_text
   \<and> \<not> re_search match_exposed example_chinese_text
   \<and> \<not> re_search match_url (filter_content example_chinese_text)
   \<and> re_search match_url example_ascii_text
   \<and> re_search (match_word (asc ''password'')) (re_sub match_url url_token example_ascii_text)
   \<and> \<not> re_search match_url (filter_content example_ascii_text)
   \<and> \<not> re_search (match_word (asc ''password'')) (filter_content example_ascii_text)
   \<and> re_search match_token (filter_content example_ascii_text)"
proof -
  have c_url: "re_search match_url example_chinese_text"
    by (simp add: example_chinese_text_def match_url_def url_char_def asc_def)
  have c_safe: "\<not> re_search match_exposed example_chinese_text"
    by (simp add: example_chinese_text_def match_exposed_def unsafe_word_def url_char_def asc_def)
  have ascii: "\<forall>c \<in> set example_ascii_text. c < 128"
    by (simp add: example_ascii_text_def asc_def)
  have six: "\<forall>c \<in> set example_ascii_text. c \<notin> {0x5bc6, 0x79c1, 0x8bbf, 0x79d8, 0x17f, 0x212a}"
    by (simp add: example_ascii_text_def asc_def)
  have url: "re_search match_url example_ascii_text"
    by (simp add: example_ascii_text_def match_url_def url_char_def asc_def)
  have url_step: "re_sub match_url url_token example_ascii_text = asc ''see [URL] PassWord''"
    by (simp add: example_ascii_text_def match_url_def url_token_def url_char_def asc_def)
  have word: "re_search (match_word (asc ''password'')) (re_sub match_url url_token example_ascii_text)"
    by (simp add: url_step match_word_def ci_match_def ascii_lower_def asc_def)
  have mem: "asc ''password'' \<in> set sensitive_words"
    by (simp add: sensitive_words_def)
  from filter_content_redacts [of example_chinese_text] c_safe
  have c_out: "\<not> re_search match_url (filter_content example_chinese_text)"
    by blast
  from filter_content_redacts [of example_ascii_text] ascii six word mem
  have "\<not> re_search match_url (filter_content example_ascii_text)"
    and "\<not> re_search (match_word (asc ''password'')) (filter_content example_ascii_text)"
    and "re_search match_token (filter_content example_ascii_text)"
    by blast+
  with c_url c_safe c_out url word show ?thesis by blast
qed

end
